theory Spec2Isabelle
  imports Complex_Main "HOL-Library.List_Lexorder" "HOL-Library.Word" "HOL-Library.Multiset"
begin

section \<open>Strings\<close>

text \<open>
  A JavaScript string is a sequence of UTF-16 code units. The order on \<open>jsstring\<close>
  given by the lexicographic order on lists is the order of the operator \<^verbatim>\<open><\<close> on
  JavaScript strings (code unit by code unit, a proper prefix is smaller).
  \<open>js\<close> writes an ASCII literal; other characters are given by their code unit.
\<close>

type_synonym jsstring = "nat list"

definition js :: "string \<Rightarrow> jsstring" where
  "js s = map of_char s"

text \<open>White space and line terminators of ECMAScript: what \<^verbatim>\<open>trim\<close> removes and
  what the class \<^verbatim>\<open>\s\<close> accepts.\<close>

definition isWhiteSpace :: "nat \<Rightarrow> bool" where
  "isWhiteSpace c \<longleftrightarrow>
     (9 \<le> c \<and> c \<le> 13) \<or> c = 32 \<or> c = 160 \<or> c = 5760 \<or> (8192 \<le> c \<and> c \<le> 8202) \<or>
     c = 8232 \<or> c = 8233 \<or> c = 8239 \<or> c = 8287 \<or> c = 12288 \<or> c = 65279"

definition trim :: "jsstring \<Rightarrow> jsstring" where
  "trim s = rev (dropWhile isWhiteSpace (rev (dropWhile isWhiteSpace s)))"

section \<open>Errors\<close>

text \<open>
  Every \<^verbatim>\<open>throw\<close> of the modelled code is a value. The constructors stand for the
  message templates of the source, with the interpolated value as argument:
  \<open>NotAFunction q\<close> for \<^verbatim>\<open>`${ctx.qualifier}...`\<close> of \<^verbatim>\<open>validateQualifier\<close>,
  \<open>MissingClosing n\<close> for \<^verbatim>\<open>messages[0]\<close> and \<open>InvalidClosing\<close> for
  \<^verbatim>\<open>messages[2]\<close> of \<^verbatim>\<open>validateParentheses\<close>, \<open>EvalError m\<close> for a failure of
  the evaluated function, and \<open>TypeError\<close> for reading a property of \<^verbatim>\<open>undefined\<close>.
\<close>

datatype error =
    NotAFunction jsstring
  | MissingClosing int
  | InvalidClosing
  | EvalError jsstring
  | TypeError

section \<open>Expression validator\<close>

record Parenthesis =
  opened :: int
  qualifier :: jsstring

text \<open>The table \<^verbatim>\<open>valueForParenthesis\<close>, in the order of the source.\<close>

definition valueForParenthesis :: "nat \<Rightarrow> int option" where
  "valueForParenthesis = map_of
     [(of_char CHR '' '', 0),
      (of_char CHR ''%'', 0),
      (of_char CHR ''('', 1),
      (of_char CHR '')'', - 1),
      (of_char CHR ''*'', 0),
      (of_char CHR ''+'', 0),
      (of_char CHR ''-'', 0),
      (of_char CHR ''.'', 0),
      (of_char CHR ''/'', 0),
      (of_char CHR ''0'', 0),
      (of_char CHR ''1'', 0),
      (of_char CHR ''2'', 0),
      (of_char CHR ''3'', 0),
      (of_char CHR ''4'', 0),
      (of_char CHR ''5'', 0),
      (of_char CHR ''6'', 0),
      (of_char CHR ''7'', 0),
      (of_char CHR ''8'', 0),
      (of_char CHR ''9'', 0)]"

definition functionNames :: "jsstring list" where
  "functionNames = [js ''cos'', js ''exp'', js ''log'', js ''sin'', js ''tan'']"

definition validateQualifier :: "Parenthesis \<Rightarrow> error + unit" where
  "validateQualifier ctx =
     (if qualifier ctx \<noteq> [] \<and> trim (qualifier ctx) \<notin> set functionNames
      then Inl (NotAFunction (qualifier ctx))
      else Inr ())"

definition updateParenthesisContext :: "Parenthesis \<Rightarrow> nat \<Rightarrow> error + Parenthesis" where
  "updateParenthesisContext ctx c =
     (case valueForParenthesis c of
        None \<Rightarrow> Inr (ctx\<lparr>qualifier := qualifier ctx @ [c]\<rparr>)
      | Some addendum \<Rightarrow>
          (case validateQualifier ctx of
             Inl e \<Rightarrow> Inl e
           | Inr _ \<Rightarrow> Inr (ctx\<lparr>opened := opened ctx + addendum, qualifier := []\<rparr>)))"

text \<open>\<^verbatim>\<open>[...expr].reduce(updateParenthesisContext, ctx)\<close>: a throw leaves the loop.\<close>

fun reduce :: "Parenthesis \<Rightarrow> jsstring \<Rightarrow> error + Parenthesis" where
  "reduce ctx [] = Inr ctx"
| "reduce ctx (c # cs) =
     (case updateParenthesisContext ctx c of
        Inl e \<Rightarrow> Inl e
      | Inr ctx' \<Rightarrow> reduce ctx' cs)"

text \<open>\<^verbatim>\<open>isNaN\<close> on the counter: \<^verbatim>\<open>opened\<close> starts at 0 and only receives the integer
  addenda of the table, so it is an integer and never NaN.\<close>

definition isNaN :: "int \<Rightarrow> bool" where
  "isNaN n = False"

definition validateParentheses :: "jsstring \<Rightarrow> error + unit" where
  "validateParentheses expr =
     (case reduce \<lparr>opened = 0, qualifier = []\<rparr> expr of
        Inl e \<Rightarrow> Inl e
      | Inr parenthesis \<Rightarrow>
          (let messages = [Some (MissingClosing (opened parenthesis)), None, Some InvalidClosing];
               index = of_bool (isNaN (opened parenthesis)) * 2 + of_bool (opened parenthesis = 0);
               message = messages ! index
           in case message of Some m \<Rightarrow> Inl m | None \<Rightarrow> Inr ()))"

section \<open>Recency cache\<close>

text \<open>
  \<^verbatim>\<open>Log = { id, message: { log } }\<close>; \<^verbatim>\<open>recent = { list, map, set }\<close> (the record \<open>Recent\<close>). The map and the
  set are only read by key, so their insertion order is not modelled.
\<close>

record Log =
  log_id :: jsstring
  log_message :: jsstring

record Recent =
  recent_list :: "Log list"
  recent_map :: "jsstring \<rightharpoonup> Log"
  recent_set :: "jsstring set"

text \<open>\<^verbatim>\<open>Array.prototype.findIndex\<close>: the first index whose element satisfies the
  predicate, -1 when there is none.\<close>

fun findIndex :: "('a \<Rightarrow> bool) \<Rightarrow> 'a list \<Rightarrow> int" where
  "findIndex p [] = - 1"
| "findIndex p (x # xs) =
     (if p x then 0 else (let i = findIndex p xs in if i < 0 then - 1 else i + 1))"

text \<open>\<^verbatim>\<open>Array.prototype.splice(start)\<close> with one argument: a negative start counts from
  the end, the elements from the start on are removed and returned. The result is the
  pair of the removed elements and the elements left in the array.\<close>

definition splice :: "int \<Rightarrow> 'a list \<Rightarrow> 'a list \<times> 'a list" where
  "splice start xs =
     (let len = int (length xs);
          actualStart = (if start < 0 then max (len + start) 0 else min start len)
      in (drop (nat actualStart) xs, take (nat actualStart) xs))"

definition updateRecent :: "Log \<Rightarrow> Recent \<Rightarrow> Recent" where
  "updateRecent entry r =
     (if log_message entry \<notin> recent_set r then
        (let index = findIndex (\<lambda>value. log_id value < log_id entry) (recent_list r);
             (rhs, list1) = splice index (recent_list r);
             list2 = list1 @ [entry];
             list3 = (if rhs \<noteq> [] then list2 @ rhs else list2)
         in r\<lparr>recent_list := list3,
              recent_map := (recent_map r)(log_id entry \<mapsto> entry),
              recent_set := insert (log_message entry) (recent_set r)\<rparr>)
      else r)"

text \<open>\<^verbatim>\<open>appendLogAsync\<close>; \<open>newId\<close> is the id that \<^verbatim>\<open>db.xAdd\<close> returned.\<close>

definition appendLogAsync :: "jsstring \<Rightarrow> jsstring \<Rightarrow> Recent \<Rightarrow> Log \<times> Recent" where
  "appendLogAsync newId text r =
     (let obj = \<lparr>log_id = newId, log_message = text\<rparr>
      in (obj, r\<lparr>recent_list := obj # recent_list r,
                 recent_map := (recent_map r)(newId \<mapsto> obj),
                 recent_set := insert text (recent_set r)\<rparr>))"

text \<open>Invariant I1: the sequence is sorted strictly descending by id.\<close>

definition descending_ids :: "Log list \<Rightarrow> bool" where
  "descending_ids xs = sorted_wrt (\<lambda>a b. log_id b < log_id a) xs"

section \<open>Regular expressions\<close>

text \<open>
  The patterns of the source are embedded as syntax trees and run by a backtracking
  matcher with the priorities of ECMAScript: a quantifier is greedy, an alternation tries
  its left branch first, and the first complete match in that order is the result.
  \<open>Cls p\<close> is a character class (also a negated class or the dot), \<open>Group n r\<close> a
  named capture group. A group without a name only brackets its body: the source reads
  captures by name and the whole match, never by number.

  A matcher state is the index reached, the input left from there and the captures so
  far. \<open>backtrack r st\<close> lists the states in which \<open>r\<close> can end from \<open>st\<close>, in the
  order in which the backtracking search would reach them. An iteration of a starred
  body that consumes nothing is rejected, as in ECMAScript.
\<close>

type_synonym groups = "(string \<times> jsstring) list"

datatype regex =
    Chr nat
  | Cls "nat \<Rightarrow> bool"
  | Seq regex regex
  | Alt regex regex
  | Star regex
  | Group string regex
  | Bol
  | Eol
  | Eps

fun backtrack :: "regex \<Rightarrow> nat \<times> jsstring \<times> groups \<Rightarrow> (nat \<times> jsstring \<times> groups) list" where
  "backtrack (Chr c) (i, s, g) =
     (case s of [] \<Rightarrow> [] | x # xs \<Rightarrow> if x = c then [(Suc i, xs, g)] else [])"
| "backtrack (Cls p) (i, s, g) =
     (case s of [] \<Rightarrow> [] | x # xs \<Rightarrow> if p x then [(Suc i, xs, g)] else [])"
| "backtrack (Seq a b) (i, s, g) = concat (map (backtrack b) (backtrack a (i, s, g)))"
| "backtrack (Alt a b) (i, s, g) = backtrack a (i, s, g) @ backtrack b (i, s, g)"
| "backtrack (Star a) (i, s, g) =
     concat (map (\<lambda>(i', s', g').
                    if length s' < length s then backtrack (Star a) (i', s', g') else [])
                 (backtrack a (i, s, g))) @ [(i, s, g)]"
| "backtrack (Group n a) (i, s, g) =
     map (\<lambda>(i', s', g'). (i', s', (n, take (i' - i) s) # g')) (backtrack a (i, s, g))"
| "backtrack Bol (i, s, g) = (if i = 0 then [(i, s, g)] else [])"
| "backtrack Eol (i, s, g) = (if s = [] then [(i, s, g)] else [])"
| "backtrack Eps (i, s, g) = [(i, s, g)]"

text \<open>The derived forms: a literal string, \<^verbatim>\<open>r+\<close>, \<^verbatim>\<open>r?\<close>, a sequence, an alternation
  of several branches, and the greedy \<^verbatim>\<open>r{0,n}\<close>.\<close>

definition lit :: "jsstring \<Rightarrow> regex" where
  "lit s = foldr (\<lambda>c r. Seq (Chr c) r) s Eps"

definition many1 :: "regex \<Rightarrow> regex" where
  "many1 r = Seq r (Star r)"

definition opt :: "regex \<Rightarrow> regex" where
  "opt r = Alt r Eps"

definition seqs :: "regex list \<Rightarrow> regex" where
  "seqs rs = foldr Seq rs Eps"

fun alts :: "regex list \<Rightarrow> regex" where
  "alts [] = Eps"
| "alts [r] = r"
| "alts (r # rs) = Alt r (alts rs)"

fun atMost :: "nat \<Rightarrow> regex \<Rightarrow> regex" where
  "atMost 0 r = Eps"
| "atMost (Suc n) r = Alt (Seq r (atMost n r)) Eps"

text \<open>\<^verbatim>\<open>RegExpMatchArray\<close>: the index of the match, the matched text \<^verbatim>\<open>matched[0]\<close> and
  the named groups; a group that took no part in the match is absent (\<^verbatim>\<open>undefined\<close>).
  The captures are recorded innermost-last, so the first entry of a name is its value.\<close>

record rmatch =
  m_index :: nat
  m_text :: jsstring
  m_groups :: groups

definition groupOf :: "rmatch \<Rightarrow> string \<Rightarrow> jsstring option" where
  "groupOf m n = map_of (m_groups m) n"

definition found :: "nat \<Rightarrow> jsstring \<Rightarrow> nat \<times> jsstring \<times> groups \<Rightarrow> rmatch" where
  "found i s st =
     (case st of (j, rest, g) \<Rightarrow> \<lparr>m_index = i, m_text = take (j - i) s, m_groups = g\<rparr>)"

text \<open>\<^verbatim>\<open>RegExpBuiltinExec\<close> from index \<open>i\<close>, where \<open>s\<close> is the input from \<open>i\<close> on: the
  first index at which the pattern matches. \<^verbatim>\<open>text.match(re)\<close> of a pattern without the
  flag \<^verbatim>\<open>g\<close> is the search from index 0.\<close>

fun search :: "regex \<Rightarrow> nat \<Rightarrow> jsstring \<Rightarrow> rmatch option" where
  "search r i s =
     (case backtrack r (i, s, []) of
        st # _ \<Rightarrow> Some (found i s st)
      | [] \<Rightarrow> (case s of [] \<Rightarrow> None | _ # t \<Rightarrow> search r (Suc i) t))"

definition match_plain :: "jsstring \<Rightarrow> regex \<Rightarrow> rmatch option" where
  "match_plain text r = search r 0 text"

text \<open>The matcher never invents input: a state it reaches holds a suffix of the input it
  started from, and the index has advanced by what was consumed. The loop of
  \<^verbatim>\<open>matchAll\<close> below terminates by this.\<close>

lemma backtrack_suffix:
  "(j, s', g') \<in> set (backtrack r (i, s, g)) \<Longrightarrow> \<exists>u. s = u @ s' \<and> j = i + length u"
proof (induction r "(i, s, g)" arbitrary: i s g j s' g' rule: backtrack.induct)
  case (1 c i s g)
  then show ?case by (cases s) (auto split: if_splits)
next
  case (2 p i s g)
  then show ?case by (cases s) (auto split: if_splits)
next
  case (3 a b i s g)
  from "3.prems" obtain k t h where
    m: "(k, t, h) \<in> set (backtrack a (i, s, g))" and
    e: "(j, s', g') \<in> set (backtrack b (k, t, h))"
    by auto
  from "3.hyps"(1) [OF m] obtain u where 1: "s = u @ t" "k = i + length u" by blast
  from "3.hyps"(2) [OF m e] obtain v where 2: "t = v @ s'" "j = k + length v" by blast
  from 1 2 have "s = (u @ v) @ s' \<and> j = i + length (u @ v)" by simp
  then show ?case by blast
next
  case (4 a b i s g)
  then show ?case by auto
next
  case (5 a i s g)
  from "5.prems" consider
      (stop) "(j, s', g') = (i, s, g)"
    | (more) k t h where "(k, t, h) \<in> set (backtrack a (i, s, g))" "length t < length s"
        "(j, s', g') \<in> set (backtrack (Star a) (k, t, h))"
    by (subst (asm) backtrack.simps) (auto simp del: backtrack.simps split: if_splits)
  then show ?case
  proof cases
    case stop
    then show ?thesis by simp
  next
    case more
    from "5.hyps"(1) [OF more(1)] obtain u where 1: "s = u @ t" "k = i + length u" by blast
    from "5.hyps"(2) [OF more(1) refl refl more(2) more(3)] obtain v where
      2: "t = v @ s'" "j = k + length v" by blast
    from 1 2 have "s = (u @ v) @ s' \<and> j = i + length (u @ v)" by simp
    then show ?thesis by blast
  qed
next
  case (6 n a i s g)
  from "6.prems" obtain h where "(j, s', h) \<in> set (backtrack a (i, s, g))" by auto
  from "6.hyps" [OF this] show ?case .
next
  case (7 i s g)
  then show ?case by (auto split: if_splits)
next
  case (8 i s g)
  then show ?case by (auto split: if_splits)
next
  case (9 i s g)
  then show ?case by auto
qed

text \<open>\<^verbatim>\<open>matchAll\<close> of a pattern with the flag \<^verbatim>\<open>g\<close>, from \<^verbatim>\<open>lastIndex = i\<close>: the next
  match is searched from the end of the last one; after an empty match the index
  advances by one.\<close>

function matchAll_from :: "regex \<Rightarrow> nat \<Rightarrow> jsstring \<Rightarrow> rmatch list" where
  "matchAll_from r i s =
     (case backtrack r (i, s, []) of
        (j, rest, g) # _ \<Rightarrow>
          found i s (j, rest, g) #
            (if j = i then (case s of [] \<Rightarrow> [] | _ # t \<Rightarrow> matchAll_from r (Suc i) t)
             else matchAll_from r j rest)
      | [] \<Rightarrow> (case s of [] \<Rightarrow> [] | _ # t \<Rightarrow> matchAll_from r (Suc i) t))"
  by pat_completeness auto
termination
proof (relation "measure (\<lambda>(r, i, s). length s)")
  fix r :: regex and i j :: nat and s rest :: jsstring and g :: groups
    and x :: "nat \<times> jsstring \<times> groups" and xs y
  assume "backtrack r (i, s, []) = x # xs" and "(j, y) = x" and "(rest, g) = y" and "j \<noteq> i"
  then have "(j, rest, g) \<in> set (backtrack r (i, s, []))" by auto
  from backtrack_suffix [OF this] \<open>j \<noteq> i\<close> have "length rest < length s" by auto
  then show "((r, j, rest), (r, i, s)) \<in> measure (\<lambda>(r, i, s). length s)" by simp
qed auto

declare matchAll_from.simps [simp del]

definition matchAll :: "jsstring \<Rightarrow> regex \<Rightarrow> rmatch list" where
  "matchAll text r = matchAll_from r 0 text"

text \<open>\<^verbatim>\<open>text.replaceAll(re, '')\<close>: the input without the matches of the pattern.\<close>

fun cut :: "nat \<Rightarrow> jsstring \<Rightarrow> rmatch list \<Rightarrow> jsstring" where
  "cut pos s [] = s"
| "cut pos s (m # ms) =
     take (m_index m - pos) s @
     cut (m_index m + length (m_text m)) (drop (m_index m - pos + length (m_text m)) s) ms"

definition removeAll :: "jsstring \<Rightarrow> regex \<Rightarrow> jsstring" where
  "removeAll text r = cut 0 text (matchAll text r)"

text \<open>With the flag \<^verbatim>\<open>u\<close> the pattern runs over code points: a surrogate pair is one
  character. The captures are given back as code units.\<close>

fun toCodePoints :: "jsstring \<Rightarrow> nat list" where
  "toCodePoints (h # l # s) =
     (if 0xD800 \<le> h \<and> h \<le> 0xDBFF \<and> 0xDC00 \<le> l \<and> l \<le> 0xDFFF
      then (0x10000 + (h - 0xD800) * 0x400 + (l - 0xDC00)) # toCodePoints s
      else h # toCodePoints (l # s))"
| "toCodePoints s = s"

fun fromCodePoints :: "nat list \<Rightarrow> jsstring" where
  "fromCodePoints [] = []"
| "fromCodePoints (c # s) =
     (if 0x10000 \<le> c
      then (0xD800 + (c - 0x10000) div 0x400) # (0xDC00 + (c - 0x10000) mod 0x400) # fromCodePoints s
      else c # fromCodePoints s)"

definition match_u :: "jsstring \<Rightarrow> regex \<Rightarrow> rmatch option" where
  "match_u text r =
     (case search r 0 (toCodePoints text) of
        None \<Rightarrow> None
      | Some m \<Rightarrow>
          Some \<lparr>m_index = length (fromCodePoints (take (m_index m) (toCodePoints text))),
                m_text = fromCodePoints (m_text m),
                m_groups = map (\<lambda>(n, v). (n, fromCodePoints v)) (m_groups m)\<rparr>)"

text \<open>A pattern with its flags, as \<^verbatim>\<open>text.match\<close> receives it.\<close>

record regexp =
  source :: regex
  unicode :: bool

definition matchRE :: "jsstring \<Rightarrow> regexp \<Rightarrow> rmatch option" where
  "matchRE text e = (if unicode e then match_u text (source e) else match_plain text (source e))"

section \<open>The patterns of the bot\<close>

text \<open>
  The static patterns of the class \<^verbatim>\<open>Bot\<close>. Characters outside ASCII are written by
  their code unit; the comments give the literal of the source in Latin transcription.
\<close>

definition isDigit :: "nat \<Rightarrow> bool" where
  "isDigit c \<longleftrightarrow> 0x30 \<le> c \<and> c \<le> 0x39"

text \<open>\<^verbatim>\<open>\w\<close>: letters, digits and the underscore.\<close>

definition isWord :: "nat \<Rightarrow> bool" where
  "isWord c \<longleftrightarrow>
     (0x41 \<le> c \<and> c \<le> 0x5A) \<or> (0x61 \<le> c \<and> c \<le> 0x7A) \<or> isDigit c \<or> c = 0x5F"

text \<open>The dot: every character but the line terminators.\<close>

definition isDot :: "nat \<Rightarrow> bool" where
  "isDot c \<longleftrightarrow> c \<noteq> 0x0A \<and> c \<noteq> 0x0D \<and> c \<noteq> 0x2028 \<and> c \<noteq> 0x2029"

text \<open>The flag \<^verbatim>\<open>i\<close>: two characters are equal when their canonical forms are. For the
  ASCII letters of the pattern the canonical form is the upper-case letter, and no
  character outside ASCII is canonically an ASCII letter.\<close>

definition canonicalize :: "nat \<Rightarrow> nat" where
  "canonicalize c = (if 0x61 \<le> c \<and> c \<le> 0x7A then c - 0x20 else c)"

definition lit_i :: "jsstring \<Rightarrow> regex" where
  "lit_i s = foldr (\<lambda>c r. Seq (Cls (\<lambda>x. canonicalize x = canonicalize c)) r) s Eps"

text \<open>\<^verbatim>\<open>/^KEISAN\s(?<expr>[\<pi>EIPaceginopstx\d\s.+\-*/%()]+)$/\<close>\<close>

definition isCalcChar :: "nat \<Rightarrow> bool" where
  "isCalcChar c \<longleftrightarrow>
     c = 0x03C0 \<or> c \<in> set (js ''EIPaceginopstx'') \<or> isDigit c \<or> isWhiteSpace c \<or>
     c \<in> set (js ''.+-*/%()'')"

definition CalcRE :: regexp where
  "CalcRE = \<lparr>source = seqs
     [Bol, lit [0x8A08, 0x7B97], Cls isWhiteSpace,
      Group ''expr'' (many1 (Cls isCalcChar)), Eol],
     unicode = False\<rparr>"

text \<open>\<^verbatim>\<open>/^TAIWA\s(?<body>.+)$/\<close>\<close>

definition DialogueRE :: regexp where
  "DialogueRE = \<lparr>source = seqs
     [Bol, lit [0x5BFE, 0x8A71], Cls isWhiteSpace, Group ''body'' (many1 (Cls isDot)), Eol],
     unicode = False\<rparr>"

text \<open>\<^verbatim>\<open>/^(?<command>KOMANDO(RISUTO)?|HERUPU)$/\<close>\<close>

definition HelpRE :: regexp where
  "HelpRE = \<lparr>source = seqs
     [Bol,
      Group ''command''
        (Alt (Seq (lit [0x30B3, 0x30DE, 0x30F3, 0x30C9]) (opt (lit [0x30EA, 0x30B9, 0x30C8])))
             (lit [0x30D8, 0x30EB, 0x30D7])),
      Eol],
     unicode = False\<rparr>"

text \<open>\<^verbatim>\<open>/^(BAKKU)?ROGU(\s+((?<command>--help)|(?<count>[1-9]\d*)))?$/\<close>\<close>

definition LogRE :: regexp where
  "LogRE = \<lparr>source = seqs
     [Bol, opt (lit [0x30D0, 0x30C3, 0x30AF]), lit [0x30ED, 0x30B0],
      opt (Seq (many1 (Cls isWhiteSpace))
            (Alt (Group ''command'' (lit (js ''--help'')))
                 (Group ''count'' (Seq (Cls (\<lambda>c. 0x31 \<le> c \<and> c \<le> 0x39)) (Star (Cls isDigit)))))),
      Eol],
     unicode = False\<rparr>"

text \<open>\<^verbatim>\<open>/>>\s[\s(?<msg>[^]]+)\s]\(CHATTO-HOUWA\s-\s(?<date>\d\d\/\d\d\s\([^)]+\))\s\<close>
  \<^verbatim>\<open>(?<time>\d\d:\d\d:\d\d)\sby\s(?<host>[^\s]+)\sKUN(\s(?<self><*ANATA-SAMA*>))?\)\s<</g\<close>,
  where \<^verbatim>\<open>[\<close> and \<^verbatim>\<open>]\<close> around the message are the corner brackets U+300C and U+300D.\<close>

definition MessageRE :: regex where
  "MessageRE = seqs
     [lit (js ''>>''), Cls isWhiteSpace, Chr 0x300C, Cls isWhiteSpace,
      Group ''msg'' (many1 (Cls (\<lambda>c. c \<noteq> 0x300D))),
      Cls isWhiteSpace, Chr 0x300D, Chr 0x28,
      lit [0x30C1, 0x30E3, 0x30C3, 0x30C8, 0x653E, 0x8A71],
      Cls isWhiteSpace, Chr 0x2D, Cls isWhiteSpace,
      Group ''date'' (seqs
        [Cls isDigit, Cls isDigit, Chr 0x2F, Cls isDigit, Cls isDigit, Cls isWhiteSpace,
         Chr 0x28, many1 (Cls (\<lambda>c. c \<noteq> 0x29)), Chr 0x29]),
      Cls isWhiteSpace,
      Group ''time'' (seqs
        [Cls isDigit, Cls isDigit, Chr 0x3A, Cls isDigit, Cls isDigit, Chr 0x3A,
         Cls isDigit, Cls isDigit]),
      Cls isWhiteSpace, lit (js ''by''), Cls isWhiteSpace,
      Group ''host'' (many1 (Cls (\<lambda>c. \<not> isWhiteSpace c))),
      Cls isWhiteSpace, Chr 0x541B,
      opt (Seq (Cls isWhiteSpace)
            (Group ''self''
              (lit [0x3008, 0xFF0A, 0x3042, 0x306A, 0x305F, 0x69D8, 0xFF0A, 0x3009]))),
      Chr 0x29, Cls isWhiteSpace, lit (js ''<<'')]"

text \<open>\<^verbatim>\<open>/^SHUUKEI(\s(?<command>--help))?$/\<close>\<close>

definition TallyRE :: regexp where
  "TallyRE = \<lparr>source = seqs
     [Bol, lit [0x96C6, 0x8A08],
      opt (Seq (Cls isWhiteSpace) (Group ''command'' (lit (js ''--help'')))), Eol],
     unicode = False\<rparr>"

text \<open>\<^verbatim>\<open>/^HON'YAKU\s+((?<command>--(help|lang))|((?<lang>bg|cs|...|zh)\s+)?(?<text>.+))$/i\<close>;
  the source lists the language codes twice.\<close>

definition languageCodes :: "string list" where
  "languageCodes =
     [''bg'', ''cs'', ''da'', ''de'', ''el'', ''en'', ''es'', ''et'', ''fi'', ''fr'', ''hu'',
      ''id'', ''it'', ''ja'', ''ko'', ''lt'', ''lv'', ''nb'', ''nl'', ''pl'', ''pt'', ''ro'',
      ''ru'', ''sk'', ''sl'', ''sv'', ''tr'', ''uk'', ''zh'']"

definition TranslateRE :: regexp where
  "TranslateRE = \<lparr>source = seqs
     [Bol, lit_i [0x7FFB, 0x8A33], many1 (Cls isWhiteSpace),
      Alt (Group ''command'' (Seq (lit_i (js ''--'')) (Alt (lit_i (js ''help'')) (lit_i (js ''lang'')))))
          (Seq (opt (Seq (Group ''lang'' (alts (map (\<lambda>c. lit_i (js c)) (languageCodes @ languageCodes))))
                         (many1 (Cls isWhiteSpace))))
               (Group ''text'' (many1 (Cls isDot)))),
      Eol],
     unicode = False\<rparr>"

text \<open>
  \<^verbatim>\<open>/^KIIWAADO(?<command>ICHIRAN|TOUROKU|KAIJO)?(\s(?<name>(--help|[H K N \w]{1,8})))?\<close>
  \<^verbatim>\<open>(\s(?<value>[C H K N \s\w\x21-\x2f\x3a-\x40\x5b-\x60\x7b-\x7e]+))?$/u\<close>, where
  \<^verbatim>\<open>H\<close>, \<^verbatim>\<open>K\<close>, \<^verbatim>\<open>N\<close> and \<^verbatim>\<open>C\<close> are the Unicode property escapes
  \<^verbatim>\<open>\p{scx=Hiragana}\<close>, \<^verbatim>\<open>\p{scx=Katakana}\<close>, \<^verbatim>\<open>\p{scx=Han}\<close> and \<^verbatim>\<open>\p{scx=Common}\<close>.
  The tables of the Unicode character database are a parameter.
\<close>

record ucd =
  scx_Hiragana :: "nat \<Rightarrow> bool"
  scx_Katakana :: "nat \<Rightarrow> bool"
  scx_Han :: "nat \<Rightarrow> bool"
  scx_Common :: "nat \<Rightarrow> bool"

definition isKeywordNameChar :: "ucd \<Rightarrow> nat \<Rightarrow> bool" where
  "isKeywordNameChar u c \<longleftrightarrow> scx_Hiragana u c \<or> scx_Katakana u c \<or> scx_Han u c \<or> isWord c"

definition isKeywordValueChar :: "ucd \<Rightarrow> nat \<Rightarrow> bool" where
  "isKeywordValueChar u c \<longleftrightarrow>
     scx_Common u c \<or> scx_Hiragana u c \<or> scx_Katakana u c \<or> scx_Han u c \<or>
     isWhiteSpace c \<or> isWord c \<or> (0x21 \<le> c \<and> c \<le> 0x2F) \<or> (0x3A \<le> c \<and> c \<le> 0x40) \<or>
     (0x5B \<le> c \<and> c \<le> 0x60) \<or> (0x7B \<le> c \<and> c \<le> 0x7E)"

definition UserKeywordRE :: "ucd \<Rightarrow> regexp" where
  "UserKeywordRE u = \<lparr>source = seqs
     [Bol, lit [0x30AD, 0x30FC, 0x30EF, 0x30FC, 0x30C9],
      opt (Group ''command''
            (alts [lit [0x4E00, 0x89A7], lit [0x767B, 0x9332], lit [0x89E3, 0x9664]])),
      opt (Seq (Cls isWhiteSpace)
            (Group ''name''
              (Alt (lit (js ''--help''))
                   (Seq (Cls (isKeywordNameChar u))
                        (atMost (Suc (Suc (Suc (Suc (Suc (Suc (Suc 0)))))))
                                (Cls (isKeywordNameChar u))))))),
      opt (Seq (Cls isWhiteSpace) (Group ''value'' (many1 (Cls (isKeywordValueChar u))))),
      Eol],
     unicode = True\<rparr>"

section \<open>Tally engine\<close>

text \<open>Decimal rendering of a number in a template literal.\<close>

function showNat :: "nat \<Rightarrow> jsstring" where
  "showNat n = (if n < 10 then [0x30 + n] else showNat (n div 10) @ [0x30 + n mod 10])"
  by pat_completeness auto
termination
  by (relation "measure id") auto

declare showNat.simps [simp del]

definition showInt :: "int \<Rightarrow> jsstring" where
  "showInt i = (if i < 0 then 0x2D # showNat (nat (- i)) else showNat (nat i))"

text \<open>\<^verbatim>\<open>Array.prototype.join\<close>.\<close>

fun join :: "jsstring \<Rightarrow> jsstring list \<Rightarrow> jsstring" where
  "join sep [] = []"
| "join sep [x] = x"
| "join sep (x # xs) = x @ sep @ join sep xs"

text \<open>
  \<^verbatim>\<open>parseInt(text)\<close> without a radix: white space is skipped, a sign is read, the prefix
  \<^verbatim>\<open>0x\<close> selects base 16, and the longest prefix of digits is the value; NaN (here \<open>None\<close>)
  when there is no digit.
\<close>

definition digitValue :: "nat \<Rightarrow> nat option" where
  "digitValue c =
     (if 0x30 \<le> c \<and> c \<le> 0x39 then Some (c - 0x30)
      else if 0x61 \<le> c \<and> c \<le> 0x7A then Some (c - 0x61 + 10)
      else if 0x41 \<le> c \<and> c \<le> 0x5A then Some (c - 0x41 + 10)
      else None)"

definition isDigitOf :: "nat \<Rightarrow> nat \<Rightarrow> bool" where
  "isDigitOf radix c = (case digitValue c of None \<Rightarrow> False | Some d \<Rightarrow> d < radix)"

definition parseInt :: "jsstring \<Rightarrow> int option" where
  "parseInt text =
     (let s = dropWhile isWhiteSpace text;
          sign = (if s \<noteq> [] \<and> hd s = 0x2D then - 1 else 1);
          s1 = (if s \<noteq> [] \<and> (hd s = 0x2B \<or> hd s = 0x2D) then tl s else s);
          hex = (2 \<le> length s1 \<and> hd s1 = 0x30 \<and> (hd (tl s1) = 0x78 \<or> hd (tl s1) = 0x58));
          radix = (if hex then 16 else 10);
          s2 = (if hex then drop 2 s1 else s1);
          digits = takeWhile (isDigitOf radix) s2
      in if digits = [] then None
         else Some (sign * foldl (\<lambda>n c. n * int radix + int (the (digitValue c))) 0 digits))"

text \<open>
  \<^verbatim>\<open>new Date(parseInt(item.id.split('-')[0])).getTime()\<close>: the part of the id before the
  first \<^verbatim>\<open>-\<close>, read as a number of milliseconds; a time value beyond 8.64e15 in
  magnitude is an invalid date, whose time is NaN.
\<close>

definition timestampOf :: "Log \<Rightarrow> int option" where
  "timestampOf item =
     (case parseInt (takeWhile (\<lambda>c. c \<noteq> 0x2D) (log_id item)) of
        None \<Rightarrow> None
      | Some t \<Rightarrow> if \<bar>t\<bar> \<le> 8640000000000000 then Some t else None)"

text \<open>
  What the code reads of the evaluation moment \<^verbatim>\<open>now = new Date()\<close>: \<open>epoch\<close> is
  \<^verbatim>\<open>new Date(now.getFullYear(), 0, 1).getTime()\<close>, the first instant of the current year
  in local time, and \<open>weekday\<close> is \<^verbatim>\<open>now.getDay()\<close>, from 0 for Sunday to 6.
\<close>

record moment =
  epoch :: int
  weekday :: int

text \<open>
  \<^verbatim>\<open>Math.floor((timestamp - epoch) / (24 * 60 * 60 * 1000))\<close> and
  \<^verbatim>\<open>Math.ceil((now.getDay() + 1 + numberOfDays) / 7)\<close>. The operands are integers far
  below \<open>2 ^ 52\<close> in magnitude, where the floating-point quotient rounds to the same
  integer as the exact one; NaN propagates.
\<close>

definition numberOfDays :: "moment \<Rightarrow> int \<Rightarrow> int" where
  "numberOfDays now timestamp = (timestamp - epoch now) div (24 * 60 * 60 * 1000)"

definition weekOf :: "moment \<Rightarrow> Log \<Rightarrow> int option" where
  "weekOf now item =
     (case timestampOf item of
        None \<Rightarrow> None
      | Some timestamp \<Rightarrow> Some (- ((- (weekday now + 1 + numberOfDays now timestamp)) div 7)))"

text \<open>
  A \<^verbatim>\<open>Map\<close> keeps its keys in insertion order, and the order is read when the map is
  spread into an array: it is an association list. \<^verbatim>\<open>Map.prototype.set\<close> replaces the
  value of a key in place and puts a new key last. The key NaN is a key like any other.
\<close>

definition mapSet :: "'k \<Rightarrow> 'v \<Rightarrow> ('k \<times> 'v) list \<Rightarrow> ('k \<times> 'v) list" where
  "mapSet k v m =
     (if k \<in> fst ` set m then map (\<lambda>(k', v'). if k' = k then (k', v) else (k', v')) m
      else m @ [(k, v)])"

type_synonym hostMap = "(jsstring option \<times> rmatch list) list"
type_synonym weekMap = "(int option \<times> hostMap) list"

text \<open>The body of the inner loop of \<^verbatim>\<open>tallyWeekly\<close>, for one match \<open>m\<close> of one record.\<close>

definition tallyMatch :: "moment \<Rightarrow> Log \<Rightarrow> weekMap \<Rightarrow> rmatch \<Rightarrow> weekMap" where
  "tallyMatch now item weekly m =
     (let week = weekOf now item;
          hosts = (case map_of weekly week of None \<Rightarrow> [] | Some h \<Rightarrow> h);
          host = groupOf m ''host'';
          list = (case map_of hosts host of None \<Rightarrow> [] | Some l \<Rightarrow> l)
      in mapSet week (mapSet host (list @ [m]) hosts) weekly)"

definition tallyWeekly :: "moment \<Rightarrow> Log list \<Rightarrow> weekMap" where
  "tallyWeekly now list =
     foldl (\<lambda>weekly item. foldl (tallyMatch now item) weekly (matchAll (log_message item) MessageRE))
       [] list"

text \<open>
  \<^verbatim>\<open>Array.prototype.sort(compare)\<close>: a stable sort, where a positive result of
  \<^verbatim>\<open>compare(a, b)\<close> puts \<open>a\<close> behind \<open>b\<close>. (For a comparator that orders the elements
  consistently the result is fixed by the language; the comparators below are consistent
  except on the week NaN.)
\<close>

fun insertJS :: "('a \<Rightarrow> 'a \<Rightarrow> int) \<Rightarrow> 'a \<Rightarrow> 'a list \<Rightarrow> 'a list" where
  "insertJS compare x [] = [x]"
| "insertJS compare x (y # ys) =
     (if compare x y \<le> 0 then x # y # ys else y # insertJS compare x ys)"

definition sortJS :: "('a \<Rightarrow> 'a \<Rightarrow> int) \<Rightarrow> 'a list \<Rightarrow> 'a list" where
  "sortJS compare xs = foldr (insertJS compare) xs []"

text \<open>\<^verbatim>\<open>(lhs, rhs) => rhs - lhs\<close>; a NaN result counts as 0.\<close>

definition descending :: "int option \<Rightarrow> int option \<Rightarrow> int" where
  "descending lhs rhs = (case (lhs, rhs) of (Some l, Some r) \<Rightarrow> r - l | _ \<Rightarrow> 0)"

definition descendingByFrequency ::
  "jsstring option \<times> rmatch list \<Rightarrow> jsstring option \<times> rmatch list \<Rightarrow> int" where
  "descendingByFrequency lhs rhs = int (length (snd rhs)) - int (length (snd lhs))"

text \<open>\<^verbatim>\<open>/(\*+[-.]?)+/g\<close>, the mask that is removed from a host name.\<close>

definition MaskRE :: regex where
  "MaskRE = many1 (Seq (many1 (Chr 0x2A)) (opt (Cls (\<lambda>c. c = 0x2D \<or> c = 0x2E))))"

text \<open>The two templates of \<^verbatim>\<open>tally\<close>: the line of a week with the number of hosts, and
  the line of a host with its number of messages.\<close>

definition weekLine :: "jsstring \<Rightarrow> nat \<Rightarrow> jsstring" where
  "weekLine name n =
     js ''[Bot] '' @ name @
     [0x9031, 0x306E, 0x9006, 0x5F15, 0x304D, 0x30DB, 0x30B9, 0x30C8, 0x540D, 0x3067, 0x533A,
      0x5225, 0x53EF, 0x80FD, 0x306A, 0x30AF, 0x30E9, 0x30A4, 0x30A2, 0x30F3, 0x30C8, 0x306E,
      0x6570, 0x306F, 0x0020] @
     showNat n @
     [0x0020, 0x3067, 0x3001, 0x767A, 0x8A00, 0x56DE, 0x6570, 0x306E, 0x591A, 0x304B, 0x3063,
      0x305F, 0x3082, 0x306E, 0x306F, 0x6B21, 0x306E, 0x901A, 0x308A, 0x3067, 0x3059]"

definition hostLine :: "jsstring \<Rightarrow> nat \<Rightarrow> jsstring" where
  "hostLine host n = js ''[Bot] '' @ removeAll host MaskRE @ js '' '' @ showNat n @ [0x0020, 0x56DE]"

text \<open>The \<^verbatim>\<open>map\<close> over the sorted hosts: \<^verbatim>\<open>e[0].replaceAll\<close> fails on a host that is
  \<^verbatim>\<open>undefined\<close>.\<close>

fun hostLines :: "hostMap \<Rightarrow> error + jsstring list" where
  "hostLines [] = Inr []"
| "hostLines ((None, ms) # es) = Inl TypeError"
| "hostLines ((Some host, ms) # es) =
     (case hostLines es of Inl err \<Rightarrow> Inl err | Inr ls \<Rightarrow> Inr (hostLine host (length ms) # ls))"

text \<open>One round of the loop of \<^verbatim>\<open>tally\<close>: \<open>week\<close> is \<^verbatim>\<open>weeks[k]\<close>, absent when the index
  is out of range; \<^verbatim>\<open>weekly.get\<close> of an absent week is \<^verbatim>\<open>undefined\<close>, and reading its
  \<^verbatim>\<open>size\<close> is a type error.\<close>

definition tallyOf :: "weekMap \<Rightarrow> jsstring \<Rightarrow> int option option \<Rightarrow> error + jsstring list" where
  "tallyOf weekly name week =
     (case (case week of None \<Rightarrow> None | Some w \<Rightarrow> map_of weekly w) of
        None \<Rightarrow> Inl TypeError
      | Some hosts \<Rightarrow>
          (case hostLines (sortJS descendingByFrequency hosts) of
             Inl err \<Rightarrow> Inl err
           | Inr ls \<Rightarrow> Inr (weekLine name (length hosts) # take 5 ls)))"

definition nth_opt :: "'a list \<Rightarrow> nat \<Rightarrow> 'a option" where
  "nth_opt xs n = (if n < length xs then Some (xs ! n) else None)"

definition tally :: "moment \<Rightarrow> Log list \<Rightarrow> error + jsstring list" where
  "tally now list =
     (let weekly = tallyWeekly now list;
          weeks = sortJS descending (map fst weekly)
      in case tallyOf weekly [0x4ECA] (nth_opt weeks 0) of
           Inl err \<Rightarrow> Inl err
         | Inr thisWeek \<Rightarrow>
             (case tallyOf weekly [0x5148] (nth_opt weeks 1) of
                Inl err \<Rightarrow> Inl err
              | Inr lastWeek \<Rightarrow> Inr (thisWeek @ lastWeek)))"

section \<open>The bot\<close>

text \<open>
  What the bot does to its collaborators is recorded as a sequence of events, in the order
  of the calls: \<open>XAdd text\<close> for \<^verbatim>\<open>db.xAdd\<close>, \<open>Broadcast entry\<close> for
  \<^verbatim>\<open>web.broadcastAsync\<close>, \<open>Send text\<close> for \<^verbatim>\<open>KoukokuProxy.sendAsync\<close> (a reply that the
  users of the chat see) and \<open>Upload text\<close> for \<^verbatim>\<open>GitHub.uploadToGistAsync\<close>.
  The calls of the router, of the handlers of its table and of the keyword engine are
  recorded beside them, so that a statement can say which of them were invoked.
\<close>

datatype event =
    XAdd jsstring
  | Broadcast Log
  | Send jsstring
  | Upload jsstring

datatype call =
    Router "jsstring option"
  | Handler string
  | KeywordEngine rmatch

text \<open>
  The state of a \<^verbatim>\<open>Bot\<close>: the cache \<^verbatim>\<open>recent\<close>, the mirrored set \<^verbatim>\<open>userKeywords\<close> (a
  \<^verbatim>\<open>Set\<close>, in insertion order), the hash of the keyword store behind it, the number of
  entries appended to the log so far, and the two records of what has happened.
\<close>

record bot =
  recent :: Recent
  userKeywords :: "jsstring list"
  keywordStore :: "(jsstring \<times> jsstring) list"
  appended :: nat
  events :: "event list"
  calls :: "call list"

text \<open>
  The collaborators and library functions whose code is not part of the sources, as
  parameters: the threshold of the constructor, \<^verbatim>\<open>Buffer.toString\<close>, the id that
  \<^verbatim>\<open>db.xAdd\<close> assigns to the n-th entry, the Unicode tables, the value (rendered in a
  template literal) or the failure of the function built by \<^verbatim>\<open>new Function\<close> from an
  expression, the evaluation moment and its rendering in the local calendar, the files,
  the answer of the gist service (id and raw URL, or a failure), the ignore patterns,
  the rendering of an absent \<^verbatim>\<open>hGet\<close> reply, and the handlers that only talk to the
  translation and dialogue services and to the log viewer. Such a handler reads the
  state and produces events, and it may fail; \<^verbatim>\<open>translateOrDescribeAsync\<close> does not await
  its work, so no failure of it reaches the router.
\<close>

record env =
  threshold :: nat
  toString :: "8 word list \<Rightarrow> jsstring"
  xAdd :: "nat \<Rightarrow> jsstring"
  unicodeData :: ucd
  evaluate :: "jsstring \<Rightarrow> error + jsstring"
  clock :: moment
  localeDateTime :: jsstring
  timeTag :: jsstring
  expiresAt :: jsstring
  readFile :: "jsstring \<Rightarrow> jsstring option"
  uploadToGistAsync :: "jsstring \<Rightarrow> (jsstring \<times> jsstring) option"
  shouldBeIgnored :: "rmatch \<Rightarrow> bool"
  hGetMissing :: jsstring
  dialogueAsync :: "rmatch \<Rightarrow> bot \<Rightarrow> error option \<times> event list"
  locateLogsAsync :: "rmatch \<Rightarrow> bot \<Rightarrow> error option \<times> event list"
  translateOrDescribeAsync :: "rmatch \<Rightarrow> bot \<Rightarrow> event list"

text \<open>An asynchronous method that returns nothing either completes or throws; the state
  it leaves is there in both cases.\<close>

type_synonym handler = "rmatch \<Rightarrow> bot \<Rightarrow> error option \<times> bot"

definition emit :: "event list \<Rightarrow> bot \<Rightarrow> bot" where
  "emit es st = st\<lparr>events := events st @ es\<rparr>"

definition sendAsync :: "jsstring \<Rightarrow> bot \<Rightarrow> bot" where
  "sendAsync text st = emit [Send text] st"

definition external :: "(rmatch \<Rightarrow> bot \<Rightarrow> error option \<times> event list) \<Rightarrow> handler" where
  "external h matched st = (case h matched st of (err, es) \<Rightarrow> (err, emit es st))"

text \<open>A value in a template literal: \<^verbatim>\<open>undefined\<close> is rendered as that word.\<close>

definition render :: "jsstring option \<Rightarrow> jsstring" where
  "render v = (case v of None \<Rightarrow> js ''undefined'' | Some s \<Rightarrow> s)"

text \<open>Truthiness of a string that may be \<^verbatim>\<open>undefined\<close>.\<close>

definition truthy :: "jsstring option \<Rightarrow> bool" where
  "truthy v \<longleftrightarrow> v \<noteq> None \<and> v \<noteq> Some []"

subsection \<open>Arithmetic\<close>

text \<open>The message of an error, as the \<^verbatim>\<open>catch\<close> of \<^verbatim>\<open>calculateAsync\<close> reports it.\<close>

definition errorMessage :: "error \<Rightarrow> jsstring" where
  "errorMessage err =
     (case err of
        NotAFunction q \<Rightarrow>
          q @ [0x306F, 0x95A2, 0x6570, 0x3067, 0x306F, 0x3042, 0x308A, 0x307E, 0x305B, 0x3093]
      | MissingClosing n \<Rightarrow>
          showInt n @ [0x500B, 0x306E, 0x9589, 0x3058, 0x62EC, 0x5F27, 0x304C, 0x4E0D, 0x8DB3,
                       0x3057, 0x3066, 0x3044, 0x307E, 0x3059]
      | InvalidClosing \<Rightarrow>
          [0x4E0D, 0x6B63, 0x306A, 0x9589, 0x3058, 0x62EC, 0x5F27, 0x304C, 0x3042, 0x308A, 0x307E,
           0x3059]
      | EvalError m \<Rightarrow> m
      | TypeError \<Rightarrow> js ''TypeError'')"

text \<open>\<^verbatim>\<open>`[Bot] KEISAN-KEKKA wa ${value} desu`\<close> and \<^verbatim>\<open>`[Bot] KEISAN-ERAA, ${message}`\<close>.\<close>

definition calcResult :: "jsstring \<Rightarrow> jsstring" where
  "calcResult v = js ''[Bot] '' @ [0x8A08, 0x7B97, 0x7D50, 0x679C, 0x306F] @ v @ [0x3067, 0x3059]"

definition calcError :: "error \<Rightarrow> jsstring" where
  "calcError reason =
     js ''[Bot] '' @ [0x8A08, 0x7B97, 0x30A8, 0x30E9, 0x30FC] @ js '', '' @ errorMessage reason"

text \<open>\<^verbatim>\<open>calculateAsync\<close>: everything that can fail stands inside the \<^verbatim>\<open>try\<close>.\<close>

definition calculateAsync :: "env \<Rightarrow> handler" where
  "calculateAsync env matched st =
     (case groupOf matched ''expr'' of
        None \<Rightarrow> (None, sendAsync (calcError TypeError) st)
      | Some expr \<Rightarrow>
          (case validateParentheses expr of
             Inl reason \<Rightarrow> (None, sendAsync (calcError reason) st)
           | Inr _ \<Rightarrow>
               (case evaluate env expr of
                  Inl reason \<Rightarrow> (None, sendAsync (calcError reason) st)
                | Inr v \<Rightarrow> (None, sendAsync (calcResult v) st))))"

subsection \<open>Speeches\<close>

record Speech =
  content :: jsstring
  speech_id :: jsstring
  url :: jsstring

text \<open>\<^verbatim>\<open>createSpeechAsync(text, maxLength, remark)\<close>; the set of live speeches, which only
  the web front end and the disposal read, is not modelled.\<close>

definition createSpeechAsync :: "env \<Rightarrow> jsstring \<Rightarrow> bool \<Rightarrow> bot \<Rightarrow> Speech option \<times> bot" where
  "createSpeechAsync env text remark st =
     (case uploadToGistAsync env text of
        Some (i, rawUrl) \<Rightarrow>
          (Some \<lparr>content = text, speech_id = i, url = rawUrl\<rparr>,
           if remark then sendAsync rawUrl (emit [Upload text] st) else emit [Upload text] st)
      | None \<Rightarrow>
          (None,
           sendAsync (js ''[Bot] '' @ [0x5927, 0x6F14, 0x8AAC, 0x306E, 0x751F, 0x6210, 0x306B, 0x5931,
                                      0x6557, 0x3057, 0x307E, 0x3057, 0x305F])
             (emit [Upload text] st)))"

definition createSpeechFromFileAsync :: "env \<Rightarrow> jsstring \<Rightarrow> bot \<Rightarrow> bot" where
  "createSpeechFromFileAsync env path st =
     (case readFile env path of
        None \<Rightarrow> st
      | Some data \<Rightarrow>
          snd (createSpeechAsync env
                 (js ''[Bot@'' @ timeTag env @ js ''] https://github.com/kei-g/koukoku-bot'' @
                  [0x0A, 0x0A] @ trim data)
                 True st))"

definition describeGeneralHelp :: "env \<Rightarrow> handler" where
  "describeGeneralHelp env matched st =
     (None, createSpeechFromFileAsync env (js ''templates/help.txt'') st)"

definition describeTallyHelp :: "env \<Rightarrow> handler" where
  "describeTallyHelp env matched st =
     (None, createSpeechFromFileAsync env (js ''templates/tally/help.txt'') st)"

definition describeUserKeywordAsync :: "env \<Rightarrow> handler" where
  "describeUserKeywordAsync env matched st =
     (None, createSpeechFromFileAsync env (js ''templates/keyword/help.txt'') st)"

subsection \<open>Statistics\<close>

text \<open>\<^verbatim>\<open>tallyAsync\<close>: the head line \<^verbatim>\<open>`[Bot] ${date}${time} JITEN no SHUUKEI-KEKKA`\<close>, an
  empty line and the lines of \<^verbatim>\<open>tally\<close>, published as a speech. There is no
  \<^verbatim>\<open>try\<close>: a failure of \<^verbatim>\<open>tally\<close> leaves the method before anything is published.\<close>

definition tallyAsync :: "env \<Rightarrow> handler" where
  "tallyAsync env matched st =
     (case tally (clock env) (recent_list (recent st)) of
        Inl err \<Rightarrow> (Some err, st)
      | Inr lines \<Rightarrow>
          (None,
           snd (createSpeechAsync env
                  (join [0x0A]
                     ((js ''[Bot] '' @ localeDateTime env @
                       [0x6642, 0x70B9, 0x306E, 0x96C6, 0x8A08, 0x7D50, 0x679C]) # [] # lines))
                  True st)))"

definition handleTallyCommandAsync :: "env \<Rightarrow> handler" where
  "handleTallyCommandAsync env matched st =
     (if groupOf matched ''command'' = Some (js ''--help'')
      then describeTallyHelp env matched st
      else tallyAsync env matched st)"

subsection \<open>User keywords\<close>

text \<open>\<^verbatim>\<open>`[Bot] KIIWAADO${command} no KOUBUN ga TADASHIKU ARIMASEN`\<close>, the complaint about the
  syntax.\<close>

definition syntaxComplaint :: "jsstring option \<Rightarrow> jsstring" where
  "syntaxComplaint command =
     js ''[Bot] '' @ [0x30AD, 0x30FC, 0x30EF, 0x30FC, 0x30C9] @ render command @
     [0x306E, 0x69CB, 0x6587, 0x304C, 0x6B63, 0x3057, 0x304F, 0x3042, 0x308A, 0x307E, 0x305B, 0x3093]"

definition createUserKeywordsSpeechAsync ::
  "env \<Rightarrow> jsstring option \<Rightarrow> (jsstring \<times> jsstring) list \<Rightarrow> bot \<Rightarrow> error option \<times> bot" where
  "createUserKeywordsSpeechAsync env command keywords st =
     (let list =
            (localeDateTime env @
             [0x6642, 0x70B9, 0x3067, 0x767B, 0x9332, 0x3055, 0x308C, 0x3066, 0x3044, 0x308B, 0x30AD,
              0x30FC, 0x30EF, 0x30FC, 0x30C9, 0x306E, 0x4E00, 0x89A7, 0x306F, 0x4EE5, 0x4E0B, 0x306E,
              0x901A, 0x308A, 0x3067, 0x3059]) #
            [] # map (\<lambda>(k, v). k @ js '' => '' @ v) keywords
      in if length list \<le> 30 then (None, snd (createSpeechAsync env (join [0x0A] list) True st))
         else
           (case createSpeechAsync env (join [0x0A] list) False st of
              (None, st') \<Rightarrow> (Some TypeError, st')
            | (Some speech, st') \<Rightarrow>
                (None,
                 sendAsync
                   (js ''[Bot] '' @ [0x30AD, 0x30FC, 0x30EF, 0x30FC, 0x30C9] @ render command @
                    [0x3092] @ url speech @
                    [0x306B, 0x7F6E, 0x304D, 0x307E, 0x3057, 0x305F, 0x002C, 0x671F, 0x9650] @
                    expiresAt env)
                   st')))"

definition listUserKeywordsAsync :: "env \<Rightarrow> handler" where
  "listUserKeywordsAsync env matched st =
     (if truthy (groupOf matched ''name'') \<or> truthy (groupOf matched ''value'')
      then (None, sendAsync (syntaxComplaint (groupOf matched ''command'')) st)
      else if keywordStore st = []
      then (None,
            sendAsync (js ''[Bot] '' @ [0x30AD, 0x30FC, 0x30EF, 0x30FC, 0x30C9, 0x306F, 0x767B, 0x9332,
                                       0x3055, 0x308C, 0x3066, 0x3044, 0x307E, 0x305B, 0x3093]) st)
      else createUserKeywordsSpeechAsync env (groupOf matched ''command'') (keywordStore st) st)"

text \<open>\<^verbatim>\<open>registerUserKeywordAsync\<close>: \<^verbatim>\<open>hSetNX\<close> stores the value when the name is new. The
  replies are \<^verbatim>\<open>"name" wa SUDENI TOUROKU SARETE IMASU\<close> and \<^verbatim>\<open>"name" wo TOUROKU SHIMASHITA\<close>.\<close>

definition registerUserKeywordAsync :: "env \<Rightarrow> handler" where
  "registerUserKeywordAsync env matched st =
     (case (groupOf matched ''name'', groupOf matched ''value'') of
        (Some name, Some v) \<Rightarrow>
          (if name \<noteq> [] \<and> v \<noteq> [] then
             (if name \<in> fst ` set (keywordStore st)
              then (None,
                    sendAsync (js ''[Bot] '' @ [0x30AD, 0x30FC, 0x30EF, 0x30FC, 0x30C9] @ js '' '' @ [0x22] @
                               name @ [0x22] @ js '' '' @
                               [0x306F, 0x65E2, 0x306B, 0x767B, 0x9332, 0x3055, 0x308C, 0x3066, 0x3044,
                                0x307E, 0x3059]) st)
              else (None,
                    sendAsync (js ''[Bot] '' @ [0x30AD, 0x30FC, 0x30EF, 0x30FC, 0x30C9] @ js '' '' @ [0x22] @
                               name @ [0x22] @ js '' '' @
                               [0x3092, 0x767B, 0x9332, 0x3057, 0x307E, 0x3057, 0x305F])
                      (st\<lparr>keywordStore := keywordStore st @ [(name, v)],
                          userKeywords := (if name \<in> set (userKeywords st) then userKeywords st
                                           else userKeywords st @ [name])\<rparr>)))
           else (None, sendAsync (syntaxComplaint (groupOf matched ''command'')) st))
      | _ \<Rightarrow> (None, sendAsync (syntaxComplaint (groupOf matched ''command'')) st))"

text \<open>\<^verbatim>\<open>unregisterUserKeywordAsync\<close>: \<^verbatim>\<open>hDel\<close> removes the name and tells whether it was
  there. The replies are \<^verbatim>\<open>"name" wa MITOUROKU DESU\<close> and
  \<^verbatim>\<open>"name" wo TOUROKU-KAIJO SHIMASHITA\<close>.\<close>

definition unregisterUserKeywordAsync :: "env \<Rightarrow> handler" where
  "unregisterUserKeywordAsync env matched st =
     (case groupOf matched ''name'' of
        Some name \<Rightarrow>
          (if name \<noteq> [] \<and> \<not> truthy (groupOf matched ''value'') then
             (if name \<in> fst ` set (keywordStore st)
              then (None,
                    sendAsync (js ''[Bot] '' @ [0x30AD, 0x30FC, 0x30EF, 0x30FC, 0x30C9] @ js '' '' @ [0x22] @
                               name @ [0x22] @ js '' '' @
                               [0x3092, 0x767B, 0x9332, 0x89E3, 0x9664, 0x3057, 0x307E, 0x3057, 0x305F])
                      (st\<lparr>keywordStore := filter (\<lambda>(k, v). k \<noteq> name) (keywordStore st),
                          userKeywords := filter (\<lambda>k. k \<noteq> name) (userKeywords st)\<rparr>))
              else (None,
                    sendAsync (js ''[Bot] '' @ [0x30AD, 0x30FC, 0x30EF, 0x30FC, 0x30C9] @ js '' '' @ [0x22] @
                               name @ [0x22] @ js '' '' @
                               [0x306F, 0x672A, 0x767B, 0x9332, 0x3067, 0x3059]) st))
           else (None, sendAsync (syntaxComplaint (groupOf matched ''command'')) st))
      | None \<Rightarrow> (None, sendAsync (syntaxComplaint (groupOf matched ''command'')) st))"

text \<open>
  The object \<^verbatim>\<open>template\<close> of \<^verbatim>\<open>handleUserKeywordCommandAsync\<close>: its own four keys, in the
  order of the source, and the properties that it inherits from \<^verbatim>\<open>Object.prototype\<close>,
  which the operator \<^verbatim>\<open>in\<close> finds as well. Calling an inherited property as a handler
  does nothing to the bot; the entry tells whether the call throws.
\<close>

definition template :: "env \<Rightarrow> (jsstring \<times> handler) list" where
  "template env =
     [(js ''--help'', describeUserKeywordAsync env),
      ([0x4E00, 0x89A7], listUserKeywordsAsync env),
      ([0x767B, 0x9332], registerUserKeywordAsync env),
      ([0x89E3, 0x9664], unregisterUserKeywordAsync env)]"

definition objectPrototype :: "(jsstring \<times> error option) list" where
  "objectPrototype =
     [(js ''constructor'', None),
      (js ''__defineGetter__'', Some TypeError),
      (js ''__defineSetter__'', Some TypeError),
      (js ''hasOwnProperty'', None),
      (js ''__lookupGetter__'', None),
      (js ''__lookupSetter__'', None),
      (js ''isPrototypeOf'', None),
      (js ''propertyIsEnumerable'', None),
      (js ''toString'', None),
      (js ''valueOf'', None),
      (js ''__proto__'', Some TypeError),
      (js ''toLocaleString'', None)]"

definition inTemplate :: "env \<Rightarrow> jsstring \<Rightarrow> bool" where
  "inTemplate env key \<longleftrightarrow> key \<in> fst ` set (template env) \<or> key \<in> fst ` set objectPrototype"

text \<open>\<^verbatim>\<open>determineUserKeywordCommandHandler\<close>: the result is \<^verbatim>\<open>null\<close> (here \<open>None\<close>), the
  name or the command.\<close>

definition determineUserKeywordCommandHandler :: "env \<Rightarrow> rmatch \<Rightarrow> jsstring option" where
  "determineUserKeywordCommandHandler env matched =
     (let command = groupOf matched ''command'';
          name = groupOf matched ''name'';
          u = (of_bool (command \<noteq> None \<and> inTemplate env (the command)) :: nat);
          v = (of_bool (command = None \<and> name \<noteq> None) :: nat)
      in [None, name, command, None] ! (u * 2 + v))"

text \<open>\<^verbatim>\<open>handleUserKeywordCommandAsync\<close>: the key \<^verbatim>\<open>null\<close> is looked up as the string
  \<^verbatim>\<open>"null"\<close>, which is no property of the template.\<close>

definition handleUserKeywordCommandAsync :: "env \<Rightarrow> handler" where
  "handleUserKeywordCommandAsync env matched st =
     (case determineUserKeywordCommandHandler env matched of
        None \<Rightarrow> (None, st)
      | Some key \<Rightarrow>
          (case map_of (template env) key of
             Some t \<Rightarrow> t matched st
           | None \<Rightarrow>
               (case map_of objectPrototype key of
                  Some outcome \<Rightarrow> (outcome, st)
                | None \<Rightarrow> (None, st))))"

subsection \<open>Keyword engine\<close>

text \<open>\<^verbatim>\<open>String.prototype.includes\<close>.\<close>

fun includesJS :: "jsstring \<Rightarrow> jsstring \<Rightarrow> bool" where
  "includesJS [] keyword = (keyword = [])"
| "includesJS (c # s) keyword = (take (length keyword) (c # s) = keyword \<or> includesJS s keyword)"

text \<open>\<^verbatim>\<open>testUserKeywordsAsync\<close>: a reply \<^verbatim>\<open>`[Bot] ${reply}`\<close> for every registered keyword
  that the message includes, here in the order of the set (the replies are sent as the
  answers of the store arrive). The test reads \<^verbatim>\<open>matched.groups.msg\<close> once for every
  keyword, which fails when the group is \<^verbatim>\<open>undefined\<close>.\<close>

definition testUserKeywordsAsync :: "env \<Rightarrow> handler" where
  "testUserKeywordsAsync env matched st =
     (if \<not> shouldBeIgnored env matched then
        (case groupOf matched ''msg'' of
           None \<Rightarrow> (if userKeywords st = [] then (None, st) else (Some TypeError, st))
         | Some msg \<Rightarrow>
             (None,
              emit (map (\<lambda>keyword.
                           Send (js ''[Bot] '' @
                                 (case map_of (keywordStore st) keyword of
                                    None \<Rightarrow> hGetMissing env
                                  | Some reply \<Rightarrow> reply)))
                        (filter (includesJS msg) (userKeywords st)))
                st))
      else (None, st))"

subsection \<open>Command router\<close>

text \<open>An entry \<^verbatim>\<open>{ e, f }\<close> of the table, with the name of the method bound to \<^verbatim>\<open>f\<close>.\<close>

record pattern =
  pattern_name :: string
  pattern_e :: regexp
  pattern_f :: handler

definition patterns :: "env \<Rightarrow> pattern list" where
  "patterns env =
     [\<lparr>pattern_name = ''calculateAsync'', pattern_e = CalcRE, pattern_f = calculateAsync env\<rparr>,
      \<lparr>pattern_name = ''dialogueAsync'', pattern_e = DialogueRE,
        pattern_f = external (dialogueAsync env)\<rparr>,
      \<lparr>pattern_name = ''describeGeneralHelp'', pattern_e = HelpRE,
        pattern_f = describeGeneralHelp env\<rparr>,
      \<lparr>pattern_name = ''locateLogsAsync'', pattern_e = LogRE,
        pattern_f = external (locateLogsAsync env)\<rparr>,
      \<lparr>pattern_name = ''handleTallyCommandAsync'', pattern_e = TallyRE,
        pattern_f = handleTallyCommandAsync env\<rparr>,
      \<lparr>pattern_name = ''translateOrDescribeAsync'', pattern_e = TranslateRE,
        pattern_f = external (\<lambda>matched st. (None, translateOrDescribeAsync env matched st))\<rparr>,
      \<lparr>pattern_name = ''handleUserKeywordCommandAsync'',
        pattern_e = UserKeywordRE (unicodeData env),
        pattern_f = handleUserKeywordCommandAsync env\<rparr>]"

text \<open>The loop of \<^verbatim>\<open>handleCanonicalCommandsAsync\<close> over the rest of the table;
  \<open>placeholder\<close> is \<^verbatim>\<open>placeholder.matched\<close>. A handler that throws ends the loop.\<close>

fun route :: "pattern list \<Rightarrow> jsstring \<Rightarrow> bool \<Rightarrow> bot \<Rightarrow> (error + bool) \<times> bot" where
  "route [] text placeholder st = (Inr placeholder, st)"
| "route (a # as) text placeholder st =
     (case matchRE text (pattern_e a) of
        Some matched \<Rightarrow>
          (case pattern_f a matched (st\<lparr>calls := calls st @ [Handler (pattern_name a)]\<rparr>) of
             (Some err, st') \<Rightarrow> (Inl err, st')
           | (None, st') \<Rightarrow> route as text True st')
      | None \<Rightarrow> route as text False st)"

text \<open>\<^verbatim>\<open>handleCanonicalCommandsAsync(text)\<close>; the argument is \<^verbatim>\<open>undefined\<close> when the group
  it is read from is, and \<^verbatim>\<open>text.match\<close> fails on it.\<close>

definition handleCanonicalCommandsAsync :: "env \<Rightarrow> jsstring option \<Rightarrow> bot \<Rightarrow> (error + bool) \<times> bot" where
  "handleCanonicalCommandsAsync env text st =
     (case text of
        None \<Rightarrow> (Inl TypeError, st\<lparr>calls := calls st @ [Router text]\<rparr>)
      | Some t \<Rightarrow> route (patterns env) t False (st\<lparr>calls := calls st @ [Router text]\<rparr>))"

subsection \<open>Startup\<close>

text \<open>\<^verbatim>\<open>(lhs, rhs) => [-1, 1][+(lhs.id < rhs.id)]\<close>, the comparator of \<^verbatim>\<open>queryLogAsync\<close>.\<close>

definition byIdDescending :: "Log \<Rightarrow> Log \<Rightarrow> int" where
  "byIdDescending lhs rhs = [- 1, 1] ! of_bool (log_id lhs < log_id rhs)"

text \<open>\<^verbatim>\<open>queryLogAsync\<close> on the cache: \<open>reply\<close> is the reply of \<^verbatim>\<open>db.xRevRange\<close>, the newest
  entry first. The entries are merged from the oldest to the newest, and the sequence is
  sorted afterwards.\<close>

definition queryLogAsync :: "Log list \<Rightarrow> Recent \<Rightarrow> Recent" where
  "queryLogAsync reply r =
     (let list = rev reply;
          r1 = foldl (\<lambda>r entry. updateRecent entry r) r list
      in r1\<lparr>recent_list := sortJS byIdDescending (recent_list r1)\<rparr>)"

subsection \<open>Dispatch coordinator\<close>

text \<open>\<^verbatim>\<open>appendLogAsync\<close> on the bot: the entry is stored under the id that the log
  assigns, and put into the cache.\<close>

definition appendLog :: "env \<Rightarrow> jsstring \<Rightarrow> bot \<Rightarrow> Log \<times> bot" where
  "appendLog env text st =
     (case appendLogAsync (xAdd env (appended st)) text (recent st) of
        (obj, r) \<Rightarrow> (obj, (emit [XAdd text] st)\<lparr>recent := r, appended := Suc (appended st)\<rparr>))"

text \<open>\<^verbatim>\<open>/\r?\n/g\<close>\<close>

definition LineBreakRE :: regex where
  "LineBreakRE = Seq (opt (Chr 0x0D)) (Chr 0x0A)"

text \<open>The body of the loop of \<^verbatim>\<open>acceptKoukoku\<close> for one match of the framing pattern.\<close>

definition acceptMatched :: "env \<Rightarrow> rmatch \<Rightarrow> bot \<Rightarrow> error option \<times> bot" where
  "acceptMatched env matched st =
     (case appendLog env (m_text matched) st of
        (entry, st1) \<Rightarrow>
          (let st2 = emit [Broadcast entry] st1 in
           if \<not> truthy (groupOf matched ''self'') then
             (case handleCanonicalCommandsAsync env (groupOf matched ''msg'') st2 of
                (Inl err, st3) \<Rightarrow> (Some err, st3)
              | (Inr True, st3) \<Rightarrow> (None, st3)
              | (Inr False, st3) \<Rightarrow>
                  testUserKeywordsAsync env matched (st3\<lparr>calls := calls st3 @ [KeywordEngine matched]\<rparr>))
           else (None, st2)))"

fun acceptAll :: "env \<Rightarrow> rmatch list \<Rightarrow> bot \<Rightarrow> error option \<times> bot" where
  "acceptAll env [] st = (None, st)"
| "acceptAll env (matched # ms) st =
     (case acceptMatched env matched st of
        (Some err, st') \<Rightarrow> (Some err, st')
      | (None, st') \<Rightarrow> acceptAll env ms st')"

text \<open>The records that \<^verbatim>\<open>acceptKoukoku\<close> extracts from a chunk.\<close>

definition frames :: "env \<Rightarrow> 8 word list \<Rightarrow> rmatch list" where
  "frames env data =
     (if threshold env < length data
      then matchAll (removeAll (toString env data) LineBreakRE) MessageRE
      else [])"

definition acceptKoukoku :: "env \<Rightarrow> 8 word list \<Rightarrow> bot \<Rightarrow> error option \<times> bot" where
  "acceptKoukoku env data st = acceptAll env (frames env data) st"

section \<open>Notions of the statements\<close>

text \<open>A handler is quiet when it leaves the record of the calls alone; the entries of a
  table that match a text, in the order of the table.\<close>

definition quiet :: "handler \<Rightarrow> bool" where
  "quiet h \<longleftrightarrow> (\<forall>matched st. calls (snd (h matched st)) = calls st)"

definition matching :: "jsstring \<Rightarrow> pattern list \<Rightarrow> pattern list" where
  "matching text ps = filter (\<lambda>a. matchRE text (pattern_e a) \<noteq> None) ps"

text \<open>The hits of a text in a table are the entries whose pattern matches it, each with
  its match, in the order of the table. \<open>awaitEach\<close> runs the handlers of a list of hits
  one after the other, each on the state that the one before it left, and stops at the
  first that throws.\<close>

definition hits :: "jsstring \<Rightarrow> pattern list \<Rightarrow> (pattern \<times> rmatch) list" where
  "hits text ps =
     concat (map (\<lambda>a. case matchRE text (pattern_e a) of None \<Rightarrow> [] | Some m \<Rightarrow> [(a, m)]) ps)"

fun awaitEach :: "(pattern \<times> rmatch) list \<Rightarrow> bot \<Rightarrow> error option \<times> bot" where
  "awaitEach [] st = (None, st)"
| "awaitEach ((a, m) # hs) st =
     (case pattern_f a m (st\<lparr>calls := calls st @ [Handler (pattern_name a)]\<rparr>) of
        (Some err, st') \<Rightarrow> (Some err, st')
      | (None, st') \<Rightarrow> awaitEach hs st')"

definition isRouter :: "call \<Rightarrow> bool" where
  "isRouter c = (case c of Router t \<Rightarrow> True | _ \<Rightarrow> False)"

definition isKeywordEngine :: "call \<Rightarrow> bool" where
  "isKeywordEngine c = (case c of KeywordEngine m \<Rightarrow> True | _ \<Rightarrow> False)"

text \<open>
  The pattern occurs in a text at an index when the matcher succeeds from there;
  \<open>matchAt\<close> is the match it then returns. A match covers the indices of the characters it
  consumed (an empty match covers its own index). \<open>binds\<close> collects the named groups
  that every match of a pattern binds.
\<close>

definition occursAt :: "regex \<Rightarrow> jsstring \<Rightarrow> nat \<Rightarrow> bool" where
  "occursAt r s p \<longleftrightarrow> p \<le> length s \<and> backtrack r (p, drop p s, []) \<noteq> []"

definition matchAt :: "regex \<Rightarrow> jsstring \<Rightarrow> nat \<Rightarrow> rmatch option" where
  "matchAt r s p =
     (case backtrack r (p, drop p s, []) of
        [] \<Rightarrow> None
      | st # _ \<Rightarrow> Some (found p (drop p s) st))"

definition covers :: "rmatch \<Rightarrow> nat \<Rightarrow> bool" where
  "covers m p \<longleftrightarrow> m_index m \<le> p \<and> p < m_index m + max 1 (length (m_text m))"

fun binds :: "regex \<Rightarrow> string set" where
  "binds (Group n a) = insert n (binds a)"
| "binds (Seq a b) = binds a \<union> binds b"
| "binds (Alt a b) = binds a \<inter> binds b"
| "binds r = {}"

text \<open>The matches of a list follow each other in the text without overlapping.\<close>

definition inDocumentOrder :: "rmatch list \<Rightarrow> bool" where
  "inDocumentOrder ms = sorted_wrt (\<lambda>a b. m_index a + max 1 (length (m_text a)) \<le> m_index b) ms"

text \<open>A text without its line breaks: every line feed is left out, together with a
  carriage return that stands directly before it.\<close>

fun withoutLineBreaks :: "jsstring \<Rightarrow> jsstring" where
  "withoutLineBreaks [] = []"
| "withoutLineBreaks (c # s) =
     (if c = 0x0A then withoutLineBreaks s
      else if c = 0x0D \<and> s \<noteq> [] \<and> hd s = 0x0A then withoutLineBreaks (tl s)
      else c # withoutLineBreaks s)"

text \<open>
  Notions of the tally. The entries of a cache at an evaluation moment are the matches
  of the framing pattern in its records, in the order in which \<^verbatim>\<open>tallyWeekly\<close> visits
  them, each with the week of its record. A week is occupied when it has an entry.
  \<open>hostsOfWeek\<close> is the map of a week in the table of the weeks (empty for an absent
  week), \<open>bucket\<close> the list of matches of a host in a week.
\<close>

definition entries :: "moment \<Rightarrow> Log list \<Rightarrow> (int option \<times> rmatch) list" where
  "entries now list =
     concat (map (\<lambda>item. map (\<lambda>m. (weekOf now item, m)) (matchAll (log_message item) MessageRE)) list)"

definition occupiedWeeks :: "moment \<Rightarrow> Log list \<Rightarrow> int option set" where
  "occupiedWeeks now list = fst ` set (entries now list)"

definition hostsOfWeek :: "weekMap \<Rightarrow> int option \<Rightarrow> hostMap" where
  "hostsOfWeek weekly w = (case map_of weekly w of None \<Rightarrow> [] | Some hosts \<Rightarrow> hosts)"

definition bucket :: "weekMap \<Rightarrow> int option \<Rightarrow> jsstring option \<Rightarrow> rmatch list" where
  "bucket weekly w h = (case map_of (hostsOfWeek weekly w) h of None \<Rightarrow> [] | Some ms \<Rightarrow> ms)"

text \<open>The hosts that spoke in a week and the number of messages of a host in a week.\<close>

definition hostsIn :: "moment \<Rightarrow> Log list \<Rightarrow> int \<Rightarrow> jsstring set" where
  "hostsIn now list w =
     {h. \<exists>m. (Some w, m) \<in> set (entries now list) \<and> groupOf m ''host'' = Some h}"

definition countOf :: "moment \<Rightarrow> Log list \<Rightarrow> int \<Rightarrow> jsstring \<Rightarrow> nat" where
  "countOf now list w h =
     length (filter (\<lambda>e. fst e = Some w \<and> groupOf (snd e) ''host'' = Some h) (entries now list))"

text \<open>A ranking of a week lists every host of the week once, with its number of
  messages, by descending number.\<close>

definition isRanking :: "moment \<Rightarrow> Log list \<Rightarrow> int \<Rightarrow> (jsstring \<times> nat) list \<Rightarrow> bool" where
  "isRanking now list w ranking \<longleftrightarrow>
     distinct (map fst ranking) \<and>
     set ranking = (\<lambda>h. (h, countOf now list w h)) ` hostsIn now list w \<and>
     sorted_wrt (\<lambda>a b. snd b \<le> snd a) ranking"

text \<open>
  The lines of the report as they are read in the chat. The name of a host is shown
  without its masked parts: every star is left out, and so is a hyphen or full stop that
  stands directly behind a run of stars. The heading of a week says, after the mark of
  the bot and the name of the week (\<^verbatim>\<open>KON\<close> for this week, \<^verbatim>\<open>SEN\<close> for the last), that
  the number of clients that their host names tell apart is the numeral that follows.
  The row of a host is the mark of the bot, the name shown, the numeral of its messages
  and the counter word. The report of a week is its heading with the number of its
  hosts, and the rows of the first five hosts of a ranking. \<open>numeralValue\<close> reads a
  decimal numeral.
\<close>

fun unmaskFrom :: "bool \<Rightarrow> jsstring \<Rightarrow> jsstring" where
  "unmaskFrom b [] = []"
| "unmaskFrom b (c # s) =
     (if c = 0x2A then unmaskFrom True s
      else if b \<and> (c = 0x2D \<or> c = 0x2E) then unmaskFrom False s
      else c # unmaskFrom False s)"

definition unmask :: "jsstring \<Rightarrow> jsstring" where
  "unmask host = unmaskFrom False host"

definition numeralValue :: "jsstring \<Rightarrow> nat" where
  "numeralValue ds = foldl (\<lambda>a c. 10 * a + (c - 0x30)) 0 ds"

definition weekHeading :: "jsstring \<Rightarrow> nat \<Rightarrow> jsstring" where
  "weekHeading name n =
     js ''[Bot] '' @ name @
     [0x9031, 0x306E, 0x9006, 0x5F15, 0x304D, 0x30DB, 0x30B9, 0x30C8, 0x540D, 0x3067, 0x533A,
      0x5225, 0x53EF, 0x80FD, 0x306A, 0x30AF, 0x30E9, 0x30A4, 0x30A2, 0x30F3, 0x30C8, 0x306E,
      0x6570, 0x306F] @ js '' '' @ showNat n @ js '' '' @
     [0x3067, 0x3001, 0x767A, 0x8A00, 0x56DE, 0x6570, 0x306E, 0x591A, 0x304B, 0x3063,
      0x305F, 0x3082, 0x306E, 0x306F, 0x6B21, 0x306E, 0x901A, 0x308A, 0x3067, 0x3059]"

definition hostRow :: "jsstring \<Rightarrow> nat \<Rightarrow> jsstring" where
  "hostRow host n = js ''[Bot] '' @ unmask host @ js '' '' @ showNat n @ js '' '' @ [0x56DE]"

definition weekReport :: "jsstring \<Rightarrow> moment \<Rightarrow> Log list \<Rightarrow> int \<Rightarrow> (jsstring \<times> nat) list \<Rightarrow> jsstring list" where
  "weekReport name now list w ranking =
     weekHeading name (card (hostsIn now list w)) # take 5 (map (\<lambda>(h, n). hostRow h n) ranking)"

text \<open>What is left of a name once the masked part at its head is taken away (\<open>b\<close> tells
  that a star stands directly before), the same after one run of stars and its
  separator, and the parts of the mask pattern: they serve the proof that the pattern
  removes what \<open>unmask\<close> leaves out.\<close>

fun maskRest :: "bool \<Rightarrow> jsstring \<Rightarrow> jsstring" where
  "maskRest b [] = []"
| "maskRest b (c # s) =
     (if c = 0x2A then maskRest True s
      else if b \<and> (c = 0x2D \<or> c = 0x2E) then maskRest False s
      else c # s)"

definition groupRest :: "jsstring \<Rightarrow> jsstring" where
  "groupRest t =
     (case dropWhile (\<lambda>c. c = 0x2A) t of
        [] \<Rightarrow> []
      | c # r \<Rightarrow> if c = 0x2D \<or> c = 0x2E then r else c # r)"

definition maskStars :: regex where
  "maskStars = Star (Chr 0x2A)"

definition maskSep :: regex where
  "maskSep = opt (Cls (\<lambda>c. c = 0x2D \<or> c = 0x2E))"

definition maskGroup :: regex where
  "maskGroup = Seq (many1 (Chr 0x2A)) maskSep"

text \<open>The week number in the words of the specification, over the reals:
  \<^verbatim>\<open>ceil((currentWeekday + 1 + daysSinceYearStart(recordTimestamp)) / 7)\<close> with the days
  since the start of the year \<^verbatim>\<open>floor((recordTimestamp - yearStart) / 86400000)\<close>.\<close>

definition specWeek :: "moment \<Rightarrow> int \<Rightarrow> int" where
  "specWeek now timestamp =
     \<lceil>(real_of_int (weekday now) + 1 +
        real_of_int \<lfloor>(real_of_int timestamp - real_of_int (epoch now)) / 86400000\<rfloor>) / 7\<rceil>"

text \<open>One round of the inner loop of \<^verbatim>\<open>tallyWeekly\<close> in terms of these notions, and the
  tables in which no week and no host stands twice.\<close>

definition addEntry :: "weekMap \<Rightarrow> int option \<times> rmatch \<Rightarrow> weekMap" where
  "addEntry weekly e =
     mapSet (fst e)
       (mapSet (groupOf (snd e) ''host'')
          (bucket weekly (fst e) (groupOf (snd e) ''host'') @ [snd e])
          (hostsOfWeek weekly (fst e)))
       weekly"

definition wellFormed :: "weekMap \<Rightarrow> bool" where
  "wellFormed weekly \<longleftrightarrow>
     distinct (map fst weekly) \<and> (\<forall>w. distinct (map fst (hostsOfWeek weekly w)))"

section \<open>Concrete inputs\<close>

definition cache53 :: Recent where
  "cache53 =
     (let a = \<lparr>log_id = js ''1700000000005-0'', log_message = js ''five''\<rparr>;
          b = \<lparr>log_id = js ''1700000000003-0'', log_message = js ''three''\<rparr>
      in \<lparr>recent_list = [a, b],
          recent_map = [log_id a \<mapsto> a, log_id b \<mapsto> b],
          recent_set = {log_message a, log_message b}\<rparr>)"


text \<open>A decoder of well-formed UTF-8 into UTF-16, for the concrete chunks below.\<close>

definition utf8_step :: "nat \<times> nat \<times> jsstring \<Rightarrow> nat \<Rightarrow> nat \<times> nat \<times> jsstring" where
  "utf8_step state b =
     (case state of (need, cp, out) \<Rightarrow>
        if need = 0 then
          (if b < 0x80 then (0, 0, out @ [b])
           else if b < 0xE0 then (1, b - 0xC0, out)
           else if b < 0xF0 then (2, b - 0xE0, out)
           else (3, b - 0xF0, out))
        else if need = 1 then (0, 0, out @ fromCodePoints [cp * 0x40 + (b - 0x80)])
        else (need - 1, cp * 0x40 + (b - 0x80), out))"

definition utf8 :: "8 word list \<Rightarrow> jsstring" where
  "utf8 data = snd (snd (foldl utf8_step (0, 0, []) (map unat data)))"

text \<open>Crude Unicode tables (the blocks of the kana and of the unified ideographs), a
  service that evaluates nothing, a clock at Wednesday 15 November 2023 in Japan, and
  services that answer.\<close>

definition ucd0 :: ucd where
  "ucd0 = \<lparr>scx_Hiragana = (\<lambda>c. 0x3041 \<le> c \<and> c \<le> 0x309F),
           scx_Katakana = (\<lambda>c. 0x30A0 \<le> c \<and> c \<le> 0x30FF),
           scx_Han = (\<lambda>c. 0x4E00 \<le> c \<and> c \<le> 0x9FFF),
           scx_Common = (\<lambda>c. c < 0x80 \<and> \<not> isWord c)\<rparr>"

definition env0 :: env where
  "env0 = \<lparr>threshold = 70,
           toString = utf8,
           xAdd = (\<lambda>n. showNat (1700000000000 + n) @ js ''-0''),
           unicodeData = ucd0,
           evaluate = (\<lambda>expr. Inl (EvalError (js ''unsupported''))),
           clock = \<lparr>epoch = 1672498800000, weekday = 3\<rparr>,
           localeDateTime = js ''R5.11.15 7:13:20'',
           timeTag = js ''8bcf9a4f'',
           expiresAt = js ''2023/11/15 7:18:20'',
           readFile = (\<lambda>path. None),
           uploadToGistAsync = (\<lambda>text. Some (js ''1'', js ''https://gist.example/raw/1'')),
           shouldBeIgnored = (\<lambda>matched. False),
           hGetMissing = js ''undefined'',
           dialogueAsync = (\<lambda>matched st. (None, [])),
           locateLogsAsync = (\<lambda>matched st. (None, [])),
           translateOrDescribeAsync = (\<lambda>matched st. [])\<rparr>"

definition bot0 :: bot where
  "bot0 = \<lparr>recent = \<lparr>recent_list = [], recent_map = Map.empty, recent_set = {}\<rparr>,
           userKeywords = [], keywordStore = [], appended = 0, events = [], calls = []\<rparr>"

text \<open>A chunk of exactly 70 bytes that holds one complete record (message \<^verbatim>\<open>x\<close> from the
  host \<^verbatim>\<open>a.jp\<close>).\<close>

definition chunk70 :: "8 word list" where
  "chunk70 =
     [0x3E, 0x3E, 0x20, 0xE3, 0x80, 0x8C, 0x20, 0x78, 0x20, 0xE3, 0x80, 0x8D,
      0x28, 0xE3, 0x83, 0x81, 0xE3, 0x83, 0xA3, 0xE3, 0x83, 0x83, 0xE3, 0x83,
      0x88, 0xE6, 0x94, 0xBE, 0xE8, 0xA9, 0xB1, 0x20, 0x2D, 0x20, 0x31, 0x31,
      0x2F, 0x31, 0x35, 0x20, 0x28, 0xE6, 0xB0, 0xB4, 0x29, 0x20, 0x30, 0x37,
      0x3A, 0x31, 0x33, 0x3A, 0x32, 0x30, 0x20, 0x62, 0x79, 0x20, 0x61, 0x2E,
      0x6A, 0x70, 0x20, 0xE5, 0x90, 0x9B, 0x29, 0x20, 0x3C, 0x3C]"

text \<open>A chunk of two records and their line breaks: the message \<^verbatim>\<open>KEISAN 1+2)\<close> from
  another user, and a message of the bot itself.\<close>

definition chunkCalc :: "8 word list" where
  "chunkCalc =
     [0x3E, 0x3E, 0x20, 0xE3, 0x80, 0x8C, 0x20, 0xE8, 0xA8, 0x88, 0xE7, 0xAE,
      0x97, 0x20, 0x31, 0x2B, 0x32, 0x29, 0x20, 0xE3, 0x80, 0x8D, 0x28, 0xE3,
      0x83, 0x81, 0xE3, 0x83, 0xA3, 0xE3, 0x83, 0x83, 0xE3, 0x83, 0x88, 0xE6,
      0x94, 0xBE, 0xE8, 0xA9, 0xB1, 0x20, 0x2D, 0x20, 0x31, 0x31, 0x2F, 0x31,
      0x35, 0x20, 0x28, 0xE6, 0xB0, 0xB4, 0x29, 0x20, 0x30, 0x37, 0x3A, 0x31,
      0x33, 0x3A, 0x32, 0x30, 0x20, 0x62, 0x79, 0x20, 0x68, 0x6F, 0x73, 0x74,
      0x31, 0x2E, 0x65, 0x78, 0x61, 0x6D, 0x70, 0x6C, 0x65, 0x2E, 0x6A, 0x70,
      0x20, 0xE5, 0x90, 0x9B, 0x29, 0x20, 0x3C, 0x3C, 0x0D, 0x0A, 0x3E, 0x3E,
      0x20, 0xE3, 0x80, 0x8C, 0x20, 0xE4, 0xBA, 0x86, 0xE8, 0xA7, 0xA3, 0x20,
      0xE3, 0x80, 0x8D, 0x28, 0xE3, 0x83, 0x81, 0xE3, 0x83, 0xA3, 0xE3, 0x83,
      0x83, 0xE3, 0x83, 0x88, 0xE6, 0x94, 0xBE, 0xE8, 0xA9, 0xB1, 0x20, 0x2D,
      0x20, 0x31, 0x31, 0x2F, 0x31, 0x35, 0x20, 0x28, 0xE6, 0xB0, 0xB4, 0x29,
      0x20, 0x30, 0x37, 0x3A, 0x31, 0x33, 0x3A, 0x32, 0x31, 0x20, 0x62, 0x79,
      0x20, 0x68, 0x6F, 0x73, 0x74, 0x32, 0x2E, 0x65, 0x78, 0x61, 0x6D, 0x70,
      0x6C, 0x65, 0x2E, 0x6A, 0x70, 0x20, 0xE5, 0x90, 0x9B, 0x20, 0xE3, 0x80,
      0x88, 0xEF, 0xBC, 0x8A, 0xE3, 0x81, 0x82, 0xE3, 0x81, 0xAA, 0xE3, 0x81,
      0x9F, 0xE6, 0xA7, 0x98, 0xEF, 0xBC, 0x8A, 0xE3, 0x80, 0x89, 0x29, 0x20,
      0x3C, 0x3C, 0x0D, 0x0A]"

text \<open>A chunk of two records: the message \<^verbatim>\<open>SHUUKEI\<close> (the command of the statistics) and
  the message \<^verbatim>\<open>hello\<close>, both from other users.\<close>

definition chunkTally :: "8 word list" where
  "chunkTally =
     [0x3E, 0x3E, 0x20, 0xE3, 0x80, 0x8C, 0x20, 0xE9, 0x9B, 0x86, 0xE8, 0xA8,
      0x88, 0x20, 0xE3, 0x80, 0x8D, 0x28, 0xE3, 0x83, 0x81, 0xE3, 0x83, 0xA3,
      0xE3, 0x83, 0x83, 0xE3, 0x83, 0x88, 0xE6, 0x94, 0xBE, 0xE8, 0xA9, 0xB1,
      0x20, 0x2D, 0x20, 0x31, 0x31, 0x2F, 0x31, 0x35, 0x20, 0x28, 0xE6, 0xB0,
      0xB4, 0x29, 0x20, 0x30, 0x37, 0x3A, 0x31, 0x33, 0x3A, 0x32, 0x30, 0x20,
      0x62, 0x79, 0x20, 0x68, 0x6F, 0x73, 0x74, 0x31, 0x2E, 0x65, 0x78, 0x61,
      0x6D, 0x70, 0x6C, 0x65, 0x2E, 0x6A, 0x70, 0x20, 0xE5, 0x90, 0x9B, 0x29,
      0x20, 0x3C, 0x3C, 0x0D, 0x0A, 0x3E, 0x3E, 0x20, 0xE3, 0x80, 0x8C, 0x20,
      0x68, 0x65, 0x6C, 0x6C, 0x6F, 0x20, 0xE3, 0x80, 0x8D, 0x28, 0xE3, 0x83,
      0x81, 0xE3, 0x83, 0xA3, 0xE3, 0x83, 0x83, 0xE3, 0x83, 0x88, 0xE6, 0x94,
      0xBE, 0xE8, 0xA9, 0xB1, 0x20, 0x2D, 0x20, 0x31, 0x31, 0x2F, 0x31, 0x35,
      0x20, 0x28, 0xE6, 0xB0, 0xB4, 0x29, 0x20, 0x30, 0x37, 0x3A, 0x31, 0x33,
      0x3A, 0x32, 0x31, 0x20, 0x62, 0x79, 0x20, 0x68, 0x6F, 0x73, 0x74, 0x32,
      0x2E, 0x65, 0x78, 0x61, 0x6D, 0x70, 0x6C, 0x65, 0x2E, 0x6A, 0x70, 0x20,
      0xE5, 0x90, 0x9B, 0x29, 0x20, 0x3C, 0x3C, 0x0D, 0x0A]"

text \<open>The message \<^verbatim>\<open>KEISAN 1+2)\<close>, the message \<^verbatim>\<open>SHUUKEI\<close> and the message
  \<^verbatim>\<open>KIIWAADO\<close>, the command word of the user keywords alone.\<close>

definition calcBody :: jsstring where
  "calcBody = [0x8A08, 0x7B97] @ js '' 1+2)''"

definition tallyBody :: jsstring where
  "tallyBody = [0x96C6, 0x8A08]"

definition keywordBody :: jsstring where
  "keywordBody = [0x30AD, 0x30FC, 0x30EF, 0x30FC, 0x30C9]"

text \<open>A chunk of one record: the message \<^verbatim>\<open>KIIWAADO\<close> from another user.\<close>

definition chunkKeyword :: "8 word list" where
  "chunkKeyword =
     [0x3E, 0x3E, 0x20, 0xE3, 0x80, 0x8C, 0x20, 0xE3, 0x82, 0xAD, 0xE3, 0x83,
      0xBC, 0xE3, 0x83, 0xAF, 0xE3, 0x83, 0xBC, 0xE3, 0x83, 0x89, 0x20, 0xE3,
      0x80, 0x8D, 0x28, 0xE3, 0x83, 0x81, 0xE3, 0x83, 0xA3, 0xE3, 0x83, 0x83,
      0xE3, 0x83, 0x88, 0xE6, 0x94, 0xBE, 0xE8, 0xA9, 0xB1, 0x20, 0x2D, 0x20,
      0x31, 0x31, 0x2F, 0x31, 0x35, 0x20, 0x28, 0xE6, 0xB0, 0xB4, 0x29, 0x20,
      0x30, 0x37, 0x3A, 0x31, 0x33, 0x3A, 0x32, 0x30, 0x20, 0x62, 0x79, 0x20,
      0x68, 0x6F, 0x73, 0x74, 0x31, 0x2E, 0x65, 0x78, 0x61, 0x6D, 0x70, 0x6C,
      0x65, 0x2E, 0x6A, 0x70, 0x20, 0xE5, 0x90, 0x9B, 0x29, 0x20, 0x3C, 0x3C,
      0x0D, 0x0A]"

text \<open>The raw text of a record of the feed with the given message, date, time and host,
  with or without the mark of a message of the bot itself, and the match of the framing
  pattern that is expected for it at an index.\<close>

definition selfMark :: jsstring where
  "selfMark = [0x3008, 0xFF0A, 0x3042, 0x306A, 0x305F, 0x69D8, 0xFF0A, 0x3009]"

definition frameText :: "jsstring \<Rightarrow> jsstring \<Rightarrow> jsstring \<Rightarrow> jsstring \<Rightarrow> bool \<Rightarrow> jsstring" where
  "frameText msg date time host self =
     js ''>> '' @ [0x300C] @ js '' '' @ msg @ js '' '' @ [0x300D] @ js ''('' @
     [0x30C1, 0x30E3, 0x30C3, 0x30C8, 0x653E, 0x8A71] @ js '' - '' @ date @ js '' '' @ time @
     js '' by '' @ host @ js '' '' @ [0x541B] @ (if self then js '' '' @ selfMark else []) @
     js '') <<''"

definition frameMatch ::
  "nat \<Rightarrow> jsstring \<Rightarrow> jsstring \<Rightarrow> jsstring \<Rightarrow> jsstring \<Rightarrow> bool \<Rightarrow> rmatch" where
  "frameMatch i msg date time host self =
     \<lparr>m_index = i, m_text = frameText msg date time host self,
      m_groups = (if self then [(''self'', selfMark)] else []) @
                 [(''host'', host), (''time'', time), (''date'', date), (''msg'', msg)]\<rparr>"

definition wednesday :: jsstring where
  "wednesday = js ''11/15 ('' @ [0x6C34] @ js '')''"

text \<open>The entries that the first records of the chunks become in the log.\<close>

definition tallyEntry :: Log where
  "tallyEntry = \<lparr>log_id = js ''1700000000000-0'',
     log_message = frameText tallyBody wednesday (js ''07:13:20'') (js ''host1.example.jp'') False\<rparr>"

definition keywordEntry :: Log where
  "keywordEntry = \<lparr>log_id = js ''1700000000000-0'',
     log_message = frameText keywordBody wednesday (js ''07:13:20'') (js ''host1.example.jp'') False\<rparr>"

text \<open>A cache of five records, the newest first: three of the week of the clock of
  \<open>env0\<close> (two from one host, one from another) and two of the week before, from a
  host whose name is partly masked.\<close>

definition cacheTwoWeeks :: "Log list" where
  "cacheTwoWeeks =
     [\<lparr>log_id = js ''1700000000000-0'',
       log_message = frameText (js ''hello'') wednesday (js ''07:13:20'') (js ''host1.example.jp'') False\<rparr>,
      \<lparr>log_id = js ''1699900000000-0'',
       log_message = frameText (js ''hi'') wednesday (js ''03:26:40'') (js ''host2.example.jp'') False\<rparr>,
      \<lparr>log_id = js ''1699800000000-0'',
       log_message = frameText (js ''bye'') wednesday (js ''23:40:00'') (js ''host1.example.jp'') False\<rparr>,
      \<lparr>log_id = js ''1699300000000-0'',
       log_message = frameText (js ''one'') wednesday (js ''04:46:40'') (js ''host3*.example.jp'') False\<rparr>,
      \<lparr>log_id = js ''1699200000000-0'',
       log_message = frameText (js ''two'') wednesday (js ''01:00:00'') (js ''host3*.example.jp'') False\<rparr>]"

text \<open>The report that belongs to this cache at the clock of \<open>env0\<close>, line by line:
  the heading of this week with two hosts, the rows of \<^verbatim>\<open>host1.example.jp\<close> with two
  messages and of \<^verbatim>\<open>host2.example.jp\<close> with one, the heading of the last week with one
  host, and the row of the masked host with two messages.\<close>

definition reportTwoWeeks :: "jsstring list" where
  "reportTwoWeeks =
     [js ''[Bot] '' @
      [0x4ECA, 0x9031, 0x306E, 0x9006, 0x5F15, 0x304D, 0x30DB, 0x30B9, 0x30C8, 0x540D, 0x3067,
       0x533A, 0x5225, 0x53EF, 0x80FD, 0x306A, 0x30AF, 0x30E9, 0x30A4, 0x30A2, 0x30F3, 0x30C8,
       0x306E, 0x6570, 0x306F] @ js '' 2 '' @
      [0x3067, 0x3001, 0x767A, 0x8A00, 0x56DE, 0x6570, 0x306E, 0x591A, 0x304B, 0x3063,
       0x305F, 0x3082, 0x306E, 0x306F, 0x6B21, 0x306E, 0x901A, 0x308A, 0x3067, 0x3059],
      js ''[Bot] host1.example.jp 2 '' @ [0x56DE],
      js ''[Bot] host2.example.jp 1 '' @ [0x56DE],
      js ''[Bot] '' @
      [0x5148, 0x9031, 0x306E, 0x9006, 0x5F15, 0x304D, 0x30DB, 0x30B9, 0x30C8, 0x540D, 0x3067,
       0x533A, 0x5225, 0x53EF, 0x80FD, 0x306A, 0x30AF, 0x30E9, 0x30A4, 0x30A2, 0x30F3, 0x30C8,
       0x306E, 0x6570, 0x306F] @ js '' 1 '' @
      [0x3067, 0x3001, 0x767A, 0x8A00, 0x56DE, 0x6570, 0x306E, 0x591A, 0x304B, 0x3063,
       0x305F, 0x3082, 0x306E, 0x306F, 0x6B21, 0x306E, 0x901A, 0x308A, 0x3067, 0x3059],
      js ''[Bot] host3example.jp 2 '' @ [0x56DE]]"

text \<open>The bot at the moment at which the router is called for the first record of
  \<open>chunkTally\<close> on a fresh log: the record has been appended and its broadcast has
  started.\<close>

definition botTally :: bot where
  "botTally =
     bot0\<lparr>recent := \<lparr>recent_list = [tallyEntry],
                       recent_map = [log_id tallyEntry \<mapsto> tallyEntry],
                       recent_set = {log_message tallyEntry}\<rparr>,
          appended := 1,
          events := [XAdd (log_message tallyEntry), Broadcast tallyEntry]\<rparr>"

text \<open>A bot that has been running since earlier the same day: a user has registered the
  keyword \<^verbatim>\<open>hello\<close> with the reply \<^verbatim>\<open>world\<close> (the message \<^verbatim>\<open>KIIWAADO-TOUROKU hello world\<close>),
  and the record of that message is the only one in the cache. \<open>helloEntry\<close> is
  the entry that the message \<^verbatim>\<open>hello\<close> of \<open>chunkTally\<close> becomes when it is the next
  to be appended.\<close>

definition registerBody :: jsstring where
  "registerBody = [0x30AD, 0x30FC, 0x30EF, 0x30FC, 0x30C9, 0x767B, 0x9332] @ js '' hello world''"

definition registerEntry :: Log where
  "registerEntry = \<lparr>log_id = js ''1699999000000-0'',
     log_message = frameText registerBody wednesday (js ''06:56:40'') (js ''host3.example.jp'') False\<rparr>"

definition helloEntry :: Log where
  "helloEntry = \<lparr>log_id = js ''1700000000000-0'',
     log_message = frameText (js ''hello'') wednesday (js ''07:13:21'') (js ''host2.example.jp'') False\<rparr>"

definition botHello :: bot where
  "botHello =
     \<lparr>recent = \<lparr>recent_list = [registerEntry],
                 recent_map = [log_id registerEntry \<mapsto> registerEntry],
                 recent_set = {log_message registerEntry}\<rparr>,
      userKeywords = [js ''hello''], keywordStore = [(js ''hello'', js ''world'')],
      appended = 0, events = [], calls = []\<rparr>"
section \<open>Verification\<close>

lemmas validate_defs = validateParentheses_def updateParenthesisContext_def
  valueForParenthesis_def validateQualifier_def isNaN_def functionNames_def trim_def
  isWhiteSpace_def js_def

lemma updateParenthesisContext_error:
  "updateParenthesisContext ctx c = Inl e \<Longrightarrow> e = NotAFunction (qualifier ctx)"
  by (auto simp: updateParenthesisContext_def validateQualifier_def
      split: option.splits sum.splits if_splits)

lemma reduce_error: "reduce ctx cs = Inl e \<Longrightarrow> \<exists>q. e = NotAFunction q"
proof (induction cs arbitrary: ctx)
  case Nil
  then show ?case by simp
next
  case (Cons c cs)
  then show ?case
    by (auto split: sum.splits dest: updateParenthesisContext_error)
qed

lemma validateParentheses_scanned:
  "reduce \<lparr>opened = 0, qualifier = []\<rparr> expr = Inr p \<Longrightarrow>
   validateParentheses expr = (if opened p = 0 then Inr () else Inl (MissingClosing (opened p)))"
  by (simp add: validateParentheses_def isNaN_def)

text \<open>
  Claim C5. After the scan, a count of zero is success and a positive count raises the
  error that names the number of missing closing groups; the claim says a negative count
  raises a distinct error for an extraneous closing group. The code selects the message
  with the index \<^verbatim>\<open>(+isNaN(opened)) * 2 + +(opened === 0)\<close>, and the counter is never NaN:
  on \<^verbatim>\<open>1+2)\<close> it raises the missing-closing error with the count -1, and no
  expression at all raises the error for an invalid closing group.
\<close>

theorem validateParentheses_extraneous_closing:
  "validateParentheses (js ''1+2)'') = Inl (MissingClosing (- 1)) \<and>
   (\<forall>expr. validateParentheses expr \<noteq> Inl InvalidClosing)"
proof
  show "validateParentheses (js ''1+2)'') = Inl (MissingClosing (- 1))"
    by (simp add: validate_defs)
  show "\<forall>expr. validateParentheses expr \<noteq> Inl InvalidClosing"
  proof
    fix expr
    show "validateParentheses expr \<noteq> Inl InvalidClosing"
    proof (cases "reduce \<lparr>opened = 0, qualifier = []\<rparr> expr")
      case (Inl e)
      then obtain q where "e = NotAFunction q" using reduce_error by blast
      with Inl show ?thesis by (simp add: validateParentheses_def)
    next
      case (Inr p)
      then show ?thesis by (simp add: validateParentheses_scanned)
    qed
  qed
qed

lemma findIndex_none: "findIndex p xs < 0 \<longleftrightarrow> (\<forall>x\<in>set xs. \<not> p x)"
  by (induction xs) (auto simp: Let_def)

lemma findIndex_nonneg: "- 1 \<le> findIndex p xs"
  by (induction xs) (auto simp: Let_def)

lemma findIndex_takeWhile:
  "\<exists>x\<in>set xs. p x \<Longrightarrow> findIndex p xs = int (length (takeWhile (\<lambda>x. \<not> p x) xs))"
  by (induction xs) (auto simp: Let_def findIndex_none)

lemma splice_found:
  "\<exists>x\<in>set xs. p x \<Longrightarrow>
   splice (findIndex p xs) xs = (dropWhile (\<lambda>x. \<not> p x) xs, takeWhile (\<lambda>x. \<not> p x) xs)"
  by (simp add: findIndex_takeWhile splice_def Let_def min_def length_takeWhile_le
      dropWhile_eq_drop [symmetric] takeWhile_eq_take [symmetric])

lemma updateRecent_found:
  assumes "log_message entry \<notin> recent_set r"
    and "\<exists>v\<in>set (recent_list r). log_id v < log_id entry"
  shows "recent_list (updateRecent entry r) =
         takeWhile (\<lambda>v. \<not> log_id v < log_id entry) (recent_list r) @
         entry # dropWhile (\<lambda>v. \<not> log_id v < log_id entry) (recent_list r)"
  using assms by (simp add: updateRecent_def splice_found dropWhile_eq_Nil_conv)

lemma updateRecent_empty:
  "log_message entry \<notin> recent_set r \<Longrightarrow> recent_list r = [] \<Longrightarrow>
   recent_list (updateRecent entry r) = [entry]"
  by (simp add: updateRecent_def splice_def)

lemma insert_between_sorted:
  assumes "sorted_wrt (\<lambda>a b. f b < f a) (xs @ ys)"
    and "\<forall>a\<in>set xs. f x < f a"
    and "\<forall>b\<in>set ys. f b < f x"
  shows "sorted_wrt (\<lambda>a b. f b < f a) (xs @ x # ys)"
  using assms by (simp add: sorted_wrt_append)

lemma updateRecent_found_sorted:
  assumes "log_message entry \<notin> recent_set r"
    and "\<exists>v\<in>set (recent_list r). log_id v < log_id entry"
    and "descending_ids (recent_list r)"
    and "log_id entry \<notin> log_id ` set (recent_list r)"
  shows "descending_ids (recent_list (updateRecent entry r))"
proof -
  define tw where "tw = takeWhile (\<lambda>v. \<not> log_id v < log_id entry) (recent_list r)"
  define dw where "dw = dropWhile (\<lambda>v. \<not> log_id v < log_id entry) (recent_list r)"
  have split: "recent_list r = tw @ dw" by (simp add: tw_def dw_def)
  have sorted: "sorted_wrt (\<lambda>a b. log_id b < log_id a) (tw @ dw)"
    using assms(3) by (simp add: descending_ids_def split)
  have left: "\<forall>a\<in>set tw. log_id entry < log_id a"
  proof
    fix a assume a: "a \<in> set tw"
    then have "\<not> log_id a < log_id entry"
      unfolding tw_def by (rule set_takeWhileD [THEN conjunct2])
    moreover have "a \<in> set (recent_list r)" using a by (simp add: split)
    then have "log_id a \<noteq> log_id entry" using assms(4) by (metis image_eqI)
    ultimately show "log_id entry < log_id a" by simp
  qed
  have "dw \<noteq> []" using assms(2) by (simp add: dw_def dropWhile_eq_Nil_conv)
  then obtain d ds where d: "dw = d # ds" by (cases dw) auto
  have "\<not> \<not> log_id (hd dw) < log_id entry"
    using \<open>dw \<noteq> []\<close> unfolding dw_def by (rule hd_dropWhile)
  then have dlt: "log_id d < log_id entry" using d by simp
  have "\<forall>b\<in>set ds. log_id b < log_id d"
    using sorted d by (simp add: sorted_wrt_append)
  with dlt have right: "\<forall>b\<in>set dw. log_id b < log_id entry"
    using d by auto
  have "recent_list (updateRecent entry r) = tw @ entry # dw"
    unfolding tw_def dw_def by (rule updateRecent_found [OF assms(1,2)])
  then show ?thesis
    unfolding descending_ids_def using insert_between_sorted [OF sorted left right] by simp
qed

text \<open>
  The merge alone, for a record that is older than every cached record: no cached record
  has a smaller id, \<^verbatim>\<open>findIndex\<close> returns -1 and \<^verbatim>\<open>splice(-1)\<close> cuts off the last element,
  so the record is placed before the last one of a sorted cache of two. The merge is only
  called by the backfill, which sorts the sequence in the same turn; what the cache
  holds after it is the subject of \<open>queryLogAsync_one\<close> below.
\<close>

lemma updateRecent_tail_misplaced:
  "descending_ids (recent_list cache53) \<and>
   js ''one'' \<notin> recent_set cache53 \<and>
   map log_id (recent_list
     (updateRecent \<lparr>log_id = js ''1700000000001-0'', log_message = js ''one''\<rparr> cache53)) =
     [js ''1700000000005-0'', js ''1700000000001-0'', js ''1700000000003-0''] \<and>
   \<not> descending_ids (recent_list
     (updateRecent \<lparr>log_id = js ''1700000000001-0'', log_message = js ''one''\<rparr> cache53))"
  by (simp add: cache53_def descending_ids_def updateRecent_def splice_def js_def Let_def)

text \<open>
  Claim C3, as amended. Merging a record whose raw text is already in the dedup set
  leaves the cache as it is: sequence, index and dedup set. The live append has no such
  test: it puts the record at the head whether or not its raw text is present.
\<close>

theorem updateRecent_present_noop:
  "log_message entry \<in> recent_set r \<Longrightarrow>
   updateRecent entry r = r \<and>
   recent_list (snd (appendLogAsync newId (log_message entry) r)) =
     \<lparr>log_id = newId, log_message = log_message entry\<rparr> # recent_list r"
  by (simp add: updateRecent_def appendLogAsync_def Let_def)

theorem updateRecent_present_noop_witness:
  "js ''five'' \<in> recent_set cache53 \<and>
   updateRecent \<lparr>log_id = js ''1700000000009-0'', log_message = js ''five''\<rparr> cache53 = cache53 \<and>
   length (recent_list (snd (appendLogAsync (js ''1700000000009-0'') (js ''five'') cache53))) = 3"
proof -
  have present: "log_message \<lparr>log_id = js ''1700000000009-0'', log_message = js ''five''\<rparr>
      \<in> recent_set cache53"
    by (simp add: cache53_def js_def Let_def)
  show ?thesis
    using present updateRecent_present_noop [OF present, of "js ''1700000000009-0''"]
    by (simp add: cache53_def Let_def)
qed

text \<open>
  Claim C3 as stated fails for the live append: appending a raw text that the cache
  already holds makes the sequence one longer.
\<close>

theorem appendLogAsync_present_counterexample:
  "js ''five'' \<in> recent_set cache53 \<and>
   length (recent_list cache53) = 2 \<and>
   length (recent_list (snd (appendLogAsync (js ''1700000000009-0'') (js ''five'') cache53))) = 3 \<and>
   snd (appendLogAsync (js ''1700000000009-0'') (js ''five'') cache53) \<noteq> cache53"
proof -
  have "recent_list (snd (appendLogAsync (js ''1700000000009-0'') (js ''five'') cache53))
      \<noteq> recent_list cache53"
    by (simp add: appendLogAsync_def cache53_def Let_def)
  then have "snd (appendLogAsync (js ''1700000000009-0'') (js ''five'') cache53) \<noteq> cache53"
    by auto
  then show ?thesis
    by (simp add: appendLogAsync_def cache53_def js_def Let_def)
qed
subsection \<open>The call record\<close>

lemma calls_emit [simp]: "calls (emit es st) = calls st"
  by (simp add: emit_def)

lemma calls_sendAsync [simp]: "calls (sendAsync text st) = calls st"
  by (simp add: sendAsync_def)

lemma calls_createSpeechAsync [simp]:
  "calls (snd (createSpeechAsync env text remark st)) = calls st"
  by (simp add: createSpeechAsync_def split: option.splits prod.splits)

lemma calls_createSpeechFromFileAsync [simp]:
  "calls (createSpeechFromFileAsync env path st) = calls st"
  by (simp add: createSpeechFromFileAsync_def split: option.splits)

lemma quiet_calculateAsync: "quiet (calculateAsync env)"
  by (simp add: quiet_def calculateAsync_def split: option.splits sum.splits)

lemma quiet_external: "quiet (external h)"
  by (simp add: quiet_def external_def split: prod.splits)

lemma quiet_describeGeneralHelp: "quiet (describeGeneralHelp env)"
  by (simp add: quiet_def describeGeneralHelp_def)

lemma quiet_describeTallyHelp: "quiet (describeTallyHelp env)"
  by (simp add: quiet_def describeTallyHelp_def)

lemma quiet_describeUserKeywordAsync: "quiet (describeUserKeywordAsync env)"
  by (simp add: quiet_def describeUserKeywordAsync_def)

lemma quiet_tallyAsync: "quiet (tallyAsync env)"
  by (simp add: quiet_def tallyAsync_def split: sum.splits)

lemma quiet_handleTallyCommandAsync: "quiet (handleTallyCommandAsync env)"
  using quiet_describeTallyHelp [of env] quiet_tallyAsync [of env]
  by (simp add: quiet_def handleTallyCommandAsync_def)

lemma calls_createUserKeywordsSpeechAsync [simp]:
  "calls (snd (createUserKeywordsSpeechAsync env command keywords st)) = calls st"
proof -
  define body where "body = join [0x0A]
     ((localeDateTime env @
             [0x6642, 0x70B9, 0x3067, 0x767B, 0x9332, 0x3055, 0x308C, 0x3066, 0x3044, 0x308B, 0x30AD,
              0x30FC, 0x30EF, 0x30FC, 0x30C9, 0x306E, 0x4E00, 0x89A7, 0x306F, 0x4EE5, 0x4E0B, 0x306E,
              0x901A, 0x308A, 0x3067, 0x3059]) #
            [] # map (\<lambda>(k, v). k @ js '' => '' @ v) keywords)"
  obtain sp st' where c: "createSpeechAsync env body False st = (sp, st')"
    by (cases "createSpeechAsync env body False st")
  have "calls (snd (createSpeechAsync env body False st)) = calls st" by simp
  with c have st': "calls st' = calls st" by simp
  have t: "calls (snd (createSpeechAsync env body True st)) = calls st" by simp
  show ?thesis
    unfolding createUserKeywordsSpeechAsync_def Let_def body_def [symmetric]
    using c st' t by (cases sp) (simp_all del: calls_createSpeechAsync)
qed

lemma quiet_listUserKeywordsAsync: "quiet (listUserKeywordsAsync env)"
  by (simp add: quiet_def listUserKeywordsAsync_def)

lemma quiet_registerUserKeywordAsync: "quiet (registerUserKeywordAsync env)"
  by (simp add: quiet_def registerUserKeywordAsync_def split: option.splits prod.splits)

lemma quiet_unregisterUserKeywordAsync: "quiet (unregisterUserKeywordAsync env)"
  by (simp add: quiet_def unregisterUserKeywordAsync_def split: option.splits)

lemma quiet_template: "(key, t) \<in> set (template env) \<Longrightarrow> quiet t"
  using quiet_describeUserKeywordAsync [of env] quiet_listUserKeywordsAsync [of env]
    quiet_registerUserKeywordAsync [of env] quiet_unregisterUserKeywordAsync [of env]
  by (auto simp: template_def)

lemma quiet_handleUserKeywordCommandAsync: "quiet (handleUserKeywordCommandAsync env)"
  unfolding quiet_def
proof (intro allI)
  fix matched st
  show "calls (snd (handleUserKeywordCommandAsync env matched st)) = calls st"
  proof (cases "determineUserKeywordCommandHandler env matched")
    case None
    then show ?thesis by (simp add: handleUserKeywordCommandAsync_def)
  next
    case (Some key)
    show ?thesis
    proof (cases "map_of (template env) key")
      case None
      with Some show ?thesis
        by (simp add: handleUserKeywordCommandAsync_def split: option.splits)
    next
      case (Some t)
      then have "quiet t" using quiet_template map_of_SomeD by fast
      with Some \<open>determineUserKeywordCommandHandler env matched = Some key\<close> show ?thesis
        by (simp add: handleUserKeywordCommandAsync_def quiet_def)
    qed
  qed
qed

lemma quiet_patterns: "a \<in> set (patterns env) \<Longrightarrow> quiet (pattern_f a)"
  using quiet_calculateAsync [of env] quiet_external quiet_describeGeneralHelp [of env]
    quiet_handleTallyCommandAsync [of env] quiet_handleUserKeywordCommandAsync [of env]
  by (auto simp: patterns_def)

lemma route_completes:
  assumes "\<forall>a\<in>set ps. quiet (pattern_f a)"
    and "route ps text placeholder st = (Inr b, st')"
  shows "calls st' = calls st @ map (\<lambda>a. Handler (pattern_name a)) (matching text ps) \<and>
         b = (if ps = [] then placeholder else matchRE text (pattern_e (last ps)) \<noteq> None)"
  using assms
proof (induction ps arbitrary: placeholder st)
  case Nil
  then show ?case by (simp add: matching_def)
next
  case (Cons a ps)
  from Cons.prems(1) have qa: "quiet (pattern_f a)" and qs: "\<forall>a\<in>set ps. quiet (pattern_f a)"
    by auto
  show ?case
  proof (cases "matchRE text (pattern_e a)")
    case None
    with Cons.prems(2) have r: "route ps text False st = (Inr b, st')" by simp
    from Cons.IH [OF qs r] have
      1: "calls st' = calls st @ map (\<lambda>a. Handler (pattern_name a)) (matching text ps)" and
      2: "b = (if ps = [] then False else matchRE text (pattern_e (last ps)) \<noteq> None)"
      by blast+
    from 1 None have "calls st' = calls st @ map (\<lambda>a. Handler (pattern_name a)) (matching text (a # ps))"
      by (simp add: matching_def)
    moreover from 2 None have "b = (matchRE text (pattern_e (last (a # ps))) \<noteq> None)"
      by (cases "ps = []") simp_all
    ultimately show ?thesis by simp
  next
    case (Some matched)
    let ?st1 = "st\<lparr>calls := calls st @ [Handler (pattern_name a)]\<rparr>"
    obtain err st2 where h: "pattern_f a matched ?st1 = (err, st2)" by (cases "pattern_f a matched ?st1")
    with Some Cons.prems(2) have e: "err = None" and r: "route ps text True st2 = (Inr b, st')"
      by (auto split: option.splits)
    from qa have "calls (snd (pattern_f a matched ?st1)) = calls ?st1"
      unfolding quiet_def by blast
    with h have c: "calls st2 = calls st @ [Handler (pattern_name a)]" by simp
    from Cons.IH [OF qs r] have
      1: "calls st' = calls st2 @ map (\<lambda>a. Handler (pattern_name a)) (matching text ps)" and
      2: "b = (if ps = [] then True else matchRE text (pattern_e (last ps)) \<noteq> None)"
      by blast+
    from 1 c Some have "calls st' = calls st @ map (\<lambda>a. Handler (pattern_name a)) (matching text (a # ps))"
      by (simp add: matching_def)
    moreover from 2 Some have "b = (matchRE text (pattern_e (last (a # ps))) \<noteq> None)"
      by (cases "ps = []") simp_all
    ultimately show ?thesis by simp
  qed
qed

subsection \<open>Command router\<close>

lemmas regex_defs = matchAll_from.simps seqs_def lit_def lit_i_def many1_def opt_def found_def matchRE_def
  match_plain_def match_u_def canonicalize_def isWhiteSpace_def isDigit_def isWord_def isDot_def
  isCalcChar_def js_def

lemmas pattern_defs = CalcRE_def DialogueRE_def HelpRE_def LogRE_def TallyRE_def TranslateRE_def
  UserKeywordRE_def

text \<open>
  The router awaits the handlers of the hits of the text, in the order of the table, each
  on the state that the handler before it left, so the state it leaves is the work of
  these handlers and of no other. When none of them throws, it returns whether the last
  entry of the table, the pattern of the user keywords, matched: not whether any entry
  did. When one throws, the router ends there with that error and returns nothing.
\<close>

lemma route_awaitEach:
  "route ps text placeholder st =
     (case awaitEach (hits text ps) st of
        (Some err, st') \<Rightarrow> (Inl err, st')
      | (None, st') \<Rightarrow>
          (Inr (if ps = [] then placeholder else matchRE text (pattern_e (last ps)) \<noteq> None), st'))"
proof (induction ps arbitrary: placeholder st)
  case Nil
  show ?case by (simp add: hits_def)
next
  case (Cons a ps)
  show ?case
  proof (cases "matchRE text (pattern_e a)")
    case None
    with Cons [of False st] show ?thesis
      by (cases "ps = []") (simp_all add: hits_def split: prod.splits option.splits)
  next
    case (Some m)
    let ?st1 = "st\<lparr>calls := calls st @ [Handler (pattern_name a)]\<rparr>"
    obtain err st2 where h: "pattern_f a m ?st1 = (err, st2)"
      by (cases "pattern_f a m ?st1")
    show ?thesis
    proof (cases err)
      case None
      with Some h Cons [of True st2] show ?thesis
        by (cases "ps = []") (simp_all add: hits_def split: prod.splits option.splits)
    next
      case (Some e)
      with \<open>matchRE text (pattern_e a) = Some m\<close> h show ?thesis by (simp add: hits_def)
    qed
  qed
qed

lemma handleCanonicalCommandsAsync_awaitEach:
  "handleCanonicalCommandsAsync env (Some body) st =
     (case awaitEach (hits body (patterns env)) (st\<lparr>calls := calls st @ [Router (Some body)]\<rparr>) of
        (Some err, st') \<Rightarrow> (Inl err, st')
      | (None, st') \<Rightarrow> (Inr (matchRE body (UserKeywordRE (unicodeData env)) \<noteq> None), st'))"
proof -
  have "patterns env \<noteq> []" and "pattern_e (last (patterns env)) = UserKeywordRE (unicodeData env)"
    by (simp_all add: patterns_def)
  then show ?thesis
    by (simp add: handleCanonicalCommandsAsync_def route_awaitEach split: prod.splits option.splits)
qed

text \<open>In terms of the record of the calls: when the router returns, it has invoked the
  handler of every matching entry, all of them and in the order of the table.\<close>

lemma handleCanonicalCommandsAsync_last_entry:
  assumes "handleCanonicalCommandsAsync env (Some body) st = (Inr b, st')"
  shows "calls st' = calls st @ Router (Some body) #
           map (\<lambda>a. Handler (pattern_name a)) (matching body (patterns env)) \<and>
         b = (matchRE body (pattern_e (last (patterns env))) \<noteq> None) \<and>
         pattern_e (last (patterns env)) = UserKeywordRE (unicodeData env)"
proof -
  let ?st1 = "st\<lparr>calls := calls st @ [Router (Some body)]\<rparr>"
  from assms have r: "route (patterns env) body False ?st1 = (Inr b, st')"
    by (simp add: handleCanonicalCommandsAsync_def)
  have q: "\<forall>a\<in>set (patterns env). quiet (pattern_f a)"
    using quiet_patterns by blast
  have ne: "patterns env \<noteq> []" by (simp add: patterns_def)
  from route_completes [OF q r] ne show ?thesis
    by (simp add: patterns_def)
qed

text \<open>A message of the arithmetic: its handler runs and replies, and the router
  returns false.\<close>

lemma calcBody_routed:
  "handleCanonicalCommandsAsync env0 (Some calcBody) bot0 =
     (Inr False,
      bot0\<lparr>events := [Send (calcError (MissingClosing (- 1)))],
           calls := [Router (Some calcBody), Handler ''calculateAsync'']\<rparr>)"
  by (simp add: handleCanonicalCommandsAsync_def patterns_def calcBody_def regex_defs pattern_defs
      calculateAsync_def groupOf_def validate_defs sendAsync_def emit_def bot0_def env0_def ucd0_def)
lemma keywordBody_CalcRE: "matchRE keywordBody CalcRE = None"
  by (simp add: keywordBody_def regex_defs CalcRE_def)
lemma keywordBody_DialogueRE: "matchRE keywordBody DialogueRE = None"
  by (simp add: keywordBody_def regex_defs DialogueRE_def)
lemma keywordBody_HelpRE: "matchRE keywordBody HelpRE = None"
  by (simp add: keywordBody_def regex_defs HelpRE_def)
lemma keywordBody_LogRE: "matchRE keywordBody LogRE = None"
  by (simp add: keywordBody_def regex_defs LogRE_def)
lemma keywordBody_TallyRE: "matchRE keywordBody TallyRE = None"
  by (simp add: keywordBody_def regex_defs TallyRE_def)
lemma keywordBody_TranslateRE: "matchRE keywordBody TranslateRE = None"
  by (simp add: keywordBody_def regex_defs TranslateRE_def)
lemma keywordBody_UserKeywordRE:
  "matchRE keywordBody (UserKeywordRE u) =
     Some \<lparr>m_index = 0, m_text = keywordBody, m_groups = []\<rparr>"
  by (simp add: keywordBody_def regex_defs UserKeywordRE_def)

lemmas keywordBody_matches = keywordBody_CalcRE keywordBody_DialogueRE keywordBody_HelpRE
  keywordBody_LogRE keywordBody_TallyRE keywordBody_TranslateRE keywordBody_UserKeywordRE

lemma keywordBody_routed:
  "handleCanonicalCommandsAsync env (Some keywordBody) st =
     (Inr True,
      st\<lparr>calls := calls st @ [Router (Some keywordBody), Handler ''handleUserKeywordCommandAsync'']\<rparr>)"
  by (simp add: handleCanonicalCommandsAsync_def patterns_def keywordBody_matches
      handleUserKeywordCommandAsync_def determineUserKeywordCommandHandler_def groupOf_def)

text \<open>
  Claim C9. A message of another user that consists of the command word of the user
  keywords alone matches the pattern of the user keywords with no group bound; the
  sub-dispatch finds no key, so no handler runs. The record is appended and broadcast and
  nothing else happens: the bot sends no reply and publishes nothing, and the keyword
  engine is not invoked, since the router returned true.
\<close>

theorem keyword_alone_no_reply:
  assumes "groupOf matched ''msg'' = Some keywordBody"
    and "\<not> truthy (groupOf matched ''self'')"
  shows "matchRE keywordBody (UserKeywordRE (unicodeData env)) =
           Some \<lparr>m_index = 0, m_text = keywordBody, m_groups = []\<rparr> \<and>
         determineUserKeywordCommandHandler env
           \<lparr>m_index = 0, m_text = keywordBody, m_groups = []\<rparr> = None \<and>
         acceptMatched env matched st =
           (None,
            st\<lparr>recent := snd (appendLogAsync (xAdd env (appended st)) (m_text matched) (recent st)),
                appended := Suc (appended st),
                events := events st @
                  [XAdd (m_text matched),
                   Broadcast \<lparr>log_id = xAdd env (appended st), log_message = m_text matched\<rparr>],
                calls := calls st @
                  [Router (Some keywordBody), Handler ''handleUserKeywordCommandAsync'']\<rparr>)"
  using assms
  by (simp add: keywordBody_UserKeywordRE determineUserKeywordCommandHandler_def groupOf_def
      acceptMatched_def appendLog_def appendLogAsync_def keywordBody_routed emit_def Let_def)

subsection \<open>Dispatch coordinator\<close>

lemma route_calls:
  assumes "\<forall>a\<in>set ps. quiet (pattern_f a)"
  shows "\<exists>names. calls (snd (route ps body placeholder st)) = calls st @ map Handler names"
  using assms
proof (induction ps arbitrary: placeholder st)
  case Nil
  have "calls (snd (route [] body placeholder st)) = calls st @ map Handler []" by simp
  then show ?case by blast
next
  case (Cons a ps)
  from Cons.prems have qa: "quiet (pattern_f a)" and qs: "\<forall>a\<in>set ps. quiet (pattern_f a)"
    by auto
  show ?case
  proof (cases "matchRE body (pattern_e a)")
    case None
    from Cons.IH [OF qs, of False st] None show ?thesis by simp
  next
    case (Some matched)
    let ?st1 = "st\<lparr>calls := calls st @ [Handler (pattern_name a)]\<rparr>"
    obtain err st2 where h: "pattern_f a matched ?st1 = (err, st2)"
      by (cases "pattern_f a matched ?st1")
    from qa have "calls (snd (pattern_f a matched ?st1)) = calls ?st1"
      unfolding quiet_def by blast
    with h have c: "calls st2 = calls st @ [Handler (pattern_name a)]" by simp
    show ?thesis
    proof (cases err)
      case None
      from Cons.IH [OF qs, of True st2] obtain names where
        "calls (snd (route ps body True st2)) = calls st2 @ map Handler names" by blast
      with c have "calls (snd (route ps body True st2)) =
          calls st @ map Handler (pattern_name a # names)" by simp
      with Some h None show ?thesis by (metis (no_types, lifting) route.simps(2) option.simps(4,5) old.prod.case)
    next
      case (Some e)
      with c have "calls st2 = calls st @ map Handler [pattern_name a]" by simp
      with \<open>matchRE body (pattern_e a) = Some matched\<close> h Some show ?thesis
        by (metis (no_types, lifting) route.simps(2) option.simps(5) old.prod.case snd_conv)
    qed
  qed
qed

lemma handleCanonicalCommandsAsync_calls:
  "\<exists>names. calls (snd (handleCanonicalCommandsAsync env body st)) =
     calls st @ Router body # map Handler names"
proof (cases body)
  case None
  then have "calls (snd (handleCanonicalCommandsAsync env body st)) =
      calls st @ Router body # map Handler []"
    by (simp add: handleCanonicalCommandsAsync_def)
  then show ?thesis by blast
next
  case (Some t)
  have q: "\<forall>a\<in>set (patterns env). quiet (pattern_f a)"
    using quiet_patterns by blast
  from route_calls [OF q, of t False "st\<lparr>calls := calls st @ [Router body]\<rparr>"]
  obtain names where "calls (snd (route (patterns env) t False (st\<lparr>calls := calls st @ [Router body]\<rparr>))) =
      calls (st\<lparr>calls := calls st @ [Router body]\<rparr>) @ map Handler names" by blast
  with Some have "calls (snd (handleCanonicalCommandsAsync env body st)) =
      calls st @ Router body # map Handler names"
    by (simp add: handleCanonicalCommandsAsync_def)
  then show ?thesis by blast
qed

lemma quiet_testUserKeywordsAsync: "quiet (testUserKeywordsAsync env)"
  by (simp add: quiet_def testUserKeywordsAsync_def split: option.splits)

lemma calls_appendLog [simp]: "calls (snd (appendLog env body st)) = calls st"
  by (simp add: appendLog_def appendLogAsync_def Let_def)

lemma isRouter_Handler [simp]: "filter isRouter (map Handler names) = []"
  by (induction names) (simp_all add: isRouter_def)

lemma isKeywordEngine_Handler [simp]: "filter isKeywordEngine (map Handler names) = []"
  by (induction names) (simp_all add: isKeywordEngine_def)

text \<open>
  One round of the loop of \<^verbatim>\<open>acceptKoukoku\<close>, in terms of the record of the calls: the
  router is called exactly when the record is not self-authored (once, on the message of
  the record), and the keyword engine exactly when the record is not self-authored and
  the router returned false. \<open>st2\<close> is the state in which the router is called, after
  the record has been appended and its broadcast started.
\<close>

lemma acceptMatched_invocations:
  fixes env matched st
  defines "st2 \<equiv> emit [Broadcast (fst (appendLog env (m_text matched) st))]
                    (snd (appendLog env (m_text matched) st))"
  defines "st' \<equiv> snd (acceptMatched env matched st)"
  shows "\<exists>new. calls st' = calls st @ new \<and>
           filter isRouter new =
             (if truthy (groupOf matched ''self'') then [] else [Router (groupOf matched ''msg'')]) \<and>
           filter isKeywordEngine new =
             (if \<not> truthy (groupOf matched ''self'') \<and>
                 fst (handleCanonicalCommandsAsync env (groupOf matched ''msg'') st2) = Inr False
              then [KeywordEngine matched] else [])"
proof (cases "truthy (groupOf matched ''self'')")
  case True
  then have "calls st' = calls st @ []"
    by (simp add: st'_def acceptMatched_def Let_def split: prod.splits)
      (metis calls_appendLog snd_conv)
  with True show ?thesis by (metis filter.simps(1))
next
  case False
  obtain entry st1 where a: "appendLog env (m_text matched) st = (entry, st1)"
    by (cases "appendLog env (m_text matched) st")
  then have st2: "st2 = emit [Broadcast entry] st1" by (simp add: st2_def)
  have "calls (snd (appendLog env (m_text matched) st)) = calls st" by simp
  with a st2 have c2: "calls st2 = calls st" by simp
  obtain res st3 where r: "handleCanonicalCommandsAsync env (groupOf matched ''msg'') st2 = (res, st3)"
    by (cases "handleCanonicalCommandsAsync env (groupOf matched ''msg'') st2")
  from handleCanonicalCommandsAsync_calls [of env "groupOf matched ''msg''" st2] r c2
  obtain names where c3: "calls st3 = calls st @ Router (groupOf matched ''msg'') # map Handler names"
    by auto
  show ?thesis
  proof (cases res)
    case (Inl err)
    with a st2 r False have "st' = st3"
      by (simp add: st'_def acceptMatched_def Let_def)
    with c3 Inl r False show ?thesis by (simp add: isRouter_def isKeywordEngine_def)
  next
    case (Inr b)
    show ?thesis
    proof (cases b)
      case True
      with Inr a st2 r False have "st' = st3"
        by (simp add: st'_def acceptMatched_def Let_def)
      with c3 Inr True r False show ?thesis by (simp add: isRouter_def isKeywordEngine_def)
    next
      case F: False
      let ?st4 = "st3\<lparr>calls := calls st3 @ [KeywordEngine matched]\<rparr>"
      from F Inr a st2 r False have "st' = snd (testUserKeywordsAsync env matched ?st4)"
        by (simp add: st'_def acceptMatched_def Let_def)
      moreover have "calls (snd (testUserKeywordsAsync env matched ?st4)) = calls ?st4"
        using quiet_testUserKeywordsAsync [of env] unfolding quiet_def by blast
      ultimately have "calls st' =
          calls st @ (Router (groupOf matched ''msg'') # map Handler names @ [KeywordEngine matched])"
        using c3 by simp
      with Inr F r False show ?thesis
        by (intro exI [of _ "Router (groupOf matched ''msg'') # map Handler names @ [KeywordEngine matched]"])
          (simp add: isRouter_def isKeywordEngine_def)
    qed
  qed
qed

subsection \<open>The concrete chunks\<close>

lemmas frame_defs = frames_def matchAll_def removeAll_def LineBreakRE_def MessageRE_def
  utf8_def utf8_step_def frameMatch_def frameText_def selfMark_def wednesday_def

lemma chunkKeyword_frames:
  "frames env0 chunkKeyword =
     [frameMatch 0 keywordBody wednesday (js ''07:13:20'') (js ''host1.example.jp'') False]"
  by (simp add: frame_defs regex_defs env0_def chunkKeyword_def keywordBody_def)

lemma chunkTally_frames:
  "frames env0 chunkTally =
     [frameMatch 0 tallyBody wednesday (js ''07:13:20'') (js ''host1.example.jp'') False,
      frameMatch 63 (js ''hello'') wednesday (js ''07:13:21'') (js ''host2.example.jp'') False]"
  by (simp add: frame_defs regex_defs env0_def chunkTally_def tallyBody_def)

lemma chunkCalc_frames:
  "frames env0 chunkCalc =
     [frameMatch 0 calcBody wednesday (js ''07:13:20'') (js ''host1.example.jp'') False,
      frameMatch 68 [0x4E86, 0x89E3] wednesday (js ''07:13:21'') (js ''host2.example.jp'') True]"
  by (simp add: frame_defs regex_defs env0_def chunkCalc_def calcBody_def)

lemmas tally_defs = tally_def tallyWeekly_def tallyMatch_def weekOf_def timestampOf_def parseInt_def
  isDigitOf_def digitValue_def numberOfDays_def mapSet_def groupOf_def sortJS_def descending_def
  descendingByFrequency_def tallyOf_def nth_opt_def weekLine_def hostLine_def showNat.simps MaskRE_def
  matchAll_def removeAll_def MessageRE_def Let_def

lemmas accept_defs = acceptMatched_def appendLog_def appendLogAsync_def emit_def sendAsync_def
  truthy_def handleCanonicalCommandsAsync_def patterns_def

lemma tallyBody_routed:
  "acceptMatched env0
     (frameMatch 0 tallyBody wednesday (js ''07:13:20'') (js ''host1.example.jp'') False) bot0 =
   (Some TypeError,
    bot0\<lparr>recent := \<lparr>recent_list = [tallyEntry],
                      recent_map = [log_id tallyEntry \<mapsto> tallyEntry],
                      recent_set = {log_message tallyEntry}\<rparr>,
         appended := 1,
         events := [XAdd (log_message tallyEntry), Broadcast tallyEntry],
         calls := [Router (Some tallyBody), Handler ''handleTallyCommandAsync'']\<rparr>)"
  by (simp add: accept_defs frameMatch_def frameText_def wednesday_def selfMark_def tallyBody_def
      tallyEntry_def handleTallyCommandAsync_def tallyAsync_def tally_defs regex_defs pattern_defs
      bot0_def env0_def ucd0_def)

subsection \<open>Failures of handlers\<close>

text \<open>The handler of the arithmetic catches what its validation and evaluation throw: it
  always completes, with one reply.\<close>

lemma calculateAsync_replies: "\<exists>reply. calculateAsync env matched st = (None, sendAsync reply st)"
  by (auto simp: calculateAsync_def split: option.splits sum.splits)

text \<open>
  Claim C4. A failure inside a handler must be caught at its boundary and become a reply,
  and must not keep the router from the remaining entries nor the bot from the following
  records. The handler of the statistics has no \<^verbatim>\<open>try\<close>: on a bot with an empty cache,
  a chunk whose first record is the command of the statistics and whose second record is
  an ordinary message leaves \<^verbatim>\<open>acceptKoukoku\<close> with the type error of \<^verbatim>\<open>tally\<close>. The first
  record has been appended and broadcast; no reply was sent, and the second record was
  never processed.
\<close>

theorem acceptKoukoku_tally_failure:
  "length (frames env0 chunkTally) = 2 \<and>
   acceptKoukoku env0 chunkTally bot0 =
     (Some TypeError,
      bot0\<lparr>recent := \<lparr>recent_list = [tallyEntry],
                        recent_map = [log_id tallyEntry \<mapsto> tallyEntry],
                        recent_set = {log_message tallyEntry}\<rparr>,
           appended := 1,
           events := [XAdd (log_message tallyEntry), Broadcast tallyEntry],
           calls := [Router (Some tallyBody), Handler ''handleTallyCommandAsync'']\<rparr>)"
  by (simp add: acceptKoukoku_def chunkTally_frames tallyBody_routed)

text \<open>The message of claim C9 arriving in a chunk: the record is appended and broadcast,
  and nothing is sent.\<close>

theorem keyword_alone_no_reply_witness:
  "acceptKoukoku env0 chunkKeyword bot0 =
     (None,
      bot0\<lparr>recent := \<lparr>recent_list = [keywordEntry],
                        recent_map = [log_id keywordEntry \<mapsto> keywordEntry],
                        recent_set = {log_message keywordEntry}\<rparr>,
           appended := 1,
           events := [XAdd (log_message keywordEntry), Broadcast keywordEntry],
           calls := [Router (Some keywordBody), Handler ''handleUserKeywordCommandAsync'']\<rparr>)"
proof -
  let ?m = "frameMatch 0 keywordBody wednesday (js ''07:13:20'') (js ''host1.example.jp'') False"
  have msg: "groupOf ?m ''msg'' = Some keywordBody"
    by (simp add: groupOf_def frameMatch_def)
  have self: "\<not> truthy (groupOf ?m ''self'')"
    by (simp add: groupOf_def frameMatch_def truthy_def)
  have "acceptMatched env0 ?m bot0 =
     (None,
      bot0\<lparr>recent := \<lparr>recent_list = [keywordEntry],
                        recent_map = [log_id keywordEntry \<mapsto> keywordEntry],
                        recent_set = {log_message keywordEntry}\<rparr>,
           appended := 1,
           events := [XAdd (log_message keywordEntry), Broadcast keywordEntry],
           calls := [Router (Some keywordBody), Handler ''handleUserKeywordCommandAsync'']\<rparr>)"
    using keyword_alone_no_reply [OF msg self, of env0 bot0]
    by (simp add: appendLogAsync_def frameMatch_def keywordEntry_def bot0_def env0_def
        showNat.simps js_def Let_def)
  then show ?thesis
    by (simp add: acceptKoukoku_def chunkKeyword_frames)
qed

subsection \<open>Stream framer\<close>

lemma backtrack_binds:
  "(j, s', g') \<in> set (backtrack r (i, s, g)) \<Longrightarrow> n \<in> binds r \<union> fst ` set g \<Longrightarrow> n \<in> fst ` set g'"
proof (induction r "(i, s, g)" arbitrary: i s g j s' g' rule: backtrack.induct)
  case (1 c i s g)
  then show ?case by (cases s) (auto split: if_splits)
next
  case (2 p i s g)
  then show ?case by (cases s) (auto split: if_splits)
next
  case (3 a b i s g)
  from "3.prems"(1) obtain k t h where
    m: "(k, t, h) \<in> set (backtrack a (i, s, g))" and
    e: "(j, s', g') \<in> set (backtrack b (k, t, h))"
    by auto
  have "n \<in> binds b \<union> fst ` set h"
  proof (cases "n \<in> binds b")
    case True
    then show ?thesis by simp
  next
    case False
    with "3.prems"(2) have "n \<in> binds a \<union> fst ` set g" by auto
    from "3.hyps"(1) [OF m this] show ?thesis by simp
  qed
  from "3.hyps"(2) [OF m e this] show ?case .
next
  case (4 a b i s g)
  from "4.prems"(1) consider "(j, s', g') \<in> set (backtrack a (i, s, g))"
    | "(j, s', g') \<in> set (backtrack b (i, s, g))" by auto
  then show ?case
  proof cases
    case 1
    from "4.prems"(2) have "n \<in> binds a \<union> fst ` set g" by auto
    from "4.hyps"(1) [OF 1 this] show ?thesis .
  next
    case 2
    from "4.prems"(2) have "n \<in> binds b \<union> fst ` set g" by auto
    from "4.hyps"(2) [OF 2 this] show ?thesis .
  qed
next
  case (5 a i s g)
  from "5.prems"(2) have ng: "n \<in> fst ` set g" by simp
  from "5.prems"(1) consider
      (stop) "(j, s', g') = (i, s, g)"
    | (more) k t h where "(k, t, h) \<in> set (backtrack a (i, s, g))" "length t < length s"
        "(j, s', g') \<in> set (backtrack (Star a) (k, t, h))"
    by (subst (asm) backtrack.simps) (auto simp del: backtrack.simps split: if_splits)
  then show ?case
  proof cases
    case stop
    with ng show ?thesis by simp
  next
    case more
    from ng have "n \<in> binds a \<union> fst ` set g" by simp
    from "5.hyps"(1) [OF more(1) this] have "n \<in> binds (Star a) \<union> fst ` set h" by simp
    from "5.hyps"(2) [OF more(1) refl refl more(2) more(3) this] show ?thesis .
  qed
next
  case (6 m a i s g)
  from "6.prems"(1) obtain h where
    a: "(j, s', h) \<in> set (backtrack a (i, s, g))" and g': "g' = (m, take (j - i) s) # h"
    by auto
  show ?case
  proof (cases "n = m")
    case True
    with g' show ?thesis by simp
  next
    case False
    with "6.prems"(2) have "n \<in> binds a \<union> fst ` set g" by auto
    from "6.hyps" [OF a this] g' show ?thesis by simp
  qed
next
  case (7 i s g)
  then show ?case by (auto split: if_splits)
next
  case (8 i s g)
  then show ?case by (auto split: if_splits)
next
  case (9 i s g)
  then show ?case by auto
qed

lemma matchAt_binds:
  assumes "matchAt r s p = Some m" and "n \<in> binds r"
  shows "groupOf m n \<noteq> None"
proof -
  from assms(1) obtain j rest g more where
    b: "backtrack r (p, drop p s, []) = (j, rest, g) # more" and m: "m = found p (drop p s) (j, rest, g)"
    by (auto simp: matchAt_def split: list.splits)
  from b have "(j, rest, g) \<in> set (backtrack r (p, drop p s, []))" by simp
  from backtrack_binds [OF this, of n] assms(2) have "n \<in> fst ` set g" by simp
  with m show ?thesis by (simp add: groupOf_def found_def map_of_eq_None_iff)
qed

lemma MessageRE_binds:
  "{''msg'', ''date'', ''time'', ''host''} \<subseteq> binds MessageRE"
  by (simp add: MessageRE_def seqs_def many1_def opt_def lit_def)

lemma matchAll_from_props:
  assumes "i \<le> length s" and "t = drop i s"
  shows "(\<forall>m\<in>set (matchAll_from r i t). i \<le> m_index m \<and> matchAt r s (m_index m) = Some m) \<and>
         sorted_wrt (\<lambda>a b. m_index a + max 1 (length (m_text a)) \<le> m_index b) (matchAll_from r i t) \<and>
         (\<forall>p. i \<le> p \<and> occursAt r s p \<longrightarrow> (\<exists>m\<in>set (matchAll_from r i t). covers m p))"
  using assms
proof (induction "length t" arbitrary: i t rule: less_induct)
  case less
  note IH = less.hyps
  from less.prems have i: "i \<le> length s" and t: "t = drop i s" by auto
  have len: "length s = i + length t" using i t by simp
  let ?P = "\<lambda>ms. (\<forall>m\<in>set ms. i \<le> m_index m \<and> matchAt r s (m_index m) = Some m) \<and>
         sorted_wrt (\<lambda>a b. m_index a + max 1 (length (m_text a)) \<le> m_index b) ms \<and>
         (\<forall>p. i \<le> p \<and> occursAt r s p \<longrightarrow> (\<exists>m\<in>set ms. covers m p))"
  show ?case
  proof (cases "backtrack r (i, t, [])")
    case Nil
    then have noocc: "\<not> occursAt r s i" by (simp add: occursAt_def t)
    show ?thesis
    proof (cases t)
      case tn: Nil
      with Nil have e: "matchAll_from r i t = []" by (subst matchAll_from.simps) simp
      have "\<And>p. i \<le> p \<Longrightarrow> occursAt r s p \<Longrightarrow> False"
      proof -
        fix p assume "i \<le> p" "occursAt r s p"
        then have "p = i" using len tn by (simp add: occursAt_def)
        with \<open>occursAt r s p\<close> noocc show False by simp
      qed
      with e show ?thesis by auto
    next
      case (Cons x t')
      with Nil have e: "matchAll_from r i t = matchAll_from r (Suc i) t'"
        by (subst matchAll_from.simps) simp
      have 1: "length t' < length t" using Cons by simp
      have 2: "Suc i \<le> length s" using len Cons by simp
      have 3: "t' = drop (Suc i) s" using t Cons by (metis drop_Suc tl_drop list.sel(3))
      note ih = IH [OF 1 2 3]
      have "\<And>p. i \<le> p \<Longrightarrow> occursAt r s p \<Longrightarrow> \<exists>m\<in>set (matchAll_from r (Suc i) t'). covers m p"
      proof -
        fix p assume p: "i \<le> p" "occursAt r s p"
        with noocc have "Suc i \<le> p" by (cases "p = i") auto
        with p ih show "\<exists>m\<in>set (matchAll_from r (Suc i) t'). covers m p" by blast
      qed
      with ih e show ?thesis by (auto intro: Suc_leD)
    qed
  next
    case (Cons st more)
    obtain j rest g where st: "st = (j, rest, g)" by (cases st)
    with Cons have b: "backtrack r (i, t, []) = (j, rest, g) # more" by simp
    then have "(j, rest, g) \<in> set (backtrack r (i, t, []))" by simp
    from backtrack_suffix [OF this] obtain u where u: "t = u @ rest" "j = i + length u" by blast
    define m0 where "m0 = found i t (j, rest, g)"
    have m0i: "m_index m0 = i" and m0t: "m_text m0 = u"
      using u by (simp_all add: m0_def found_def)
    have m0at: "matchAt r s i = Some m0"
      using b by (simp add: matchAt_def t m0_def)
    have tail_case: "\<And>ms'.
        (\<forall>m\<in>set ms'. i + max 1 (length u) \<le> m_index m \<and> matchAt r s (m_index m) = Some m) \<Longrightarrow>
        sorted_wrt (\<lambda>a b. m_index a + max 1 (length (m_text a)) \<le> m_index b) ms' \<Longrightarrow>
        (\<forall>p. i + max 1 (length u) \<le> p \<and> occursAt r s p \<longrightarrow> (\<exists>m\<in>set ms'. covers m p)) \<Longrightarrow>
        ?P (m0 # ms')"
    proof -
      fix ms'
      assume a: "\<forall>m\<in>set ms'. i + max 1 (length u) \<le> m_index m \<and> matchAt r s (m_index m) = Some m"
        and s: "sorted_wrt (\<lambda>a b. m_index a + max 1 (length (m_text a)) \<le> m_index b) ms'"
        and c: "\<forall>p. i + max 1 (length u) \<le> p \<and> occursAt r s p \<longrightarrow> (\<exists>m\<in>set ms'. covers m p)"
      have A: "\<forall>m\<in>set (m0 # ms'). i \<le> m_index m \<and> matchAt r s (m_index m) = Some m"
        using a m0i m0at by auto
      have S: "sorted_wrt (\<lambda>a b. m_index a + max 1 (length (m_text a)) \<le> m_index b) (m0 # ms')"
        using a s m0i m0t by simp
      have C: "\<forall>p. i \<le> p \<and> occursAt r s p \<longrightarrow> (\<exists>m\<in>set (m0 # ms'). covers m p)"
      proof (intro allI impI)
        fix p assume p: "i \<le> p \<and> occursAt r s p"
        show "\<exists>m\<in>set (m0 # ms'). covers m p"
        proof (cases "p < i + max 1 (length u)")
          case True
          with p have "covers m0 p" by (simp add: covers_def m0i m0t)
          then show ?thesis by simp
        next
          case False
          with p c have "\<exists>m\<in>set ms'. covers m p" by simp
          then show ?thesis by auto
        qed
      qed
      from A S C show "?P (m0 # ms')" by blast
    qed
    show ?thesis
    proof (cases "j = i")
      case True
      with u have un: "u = []" by simp
      show ?thesis
      proof (cases t)
        case Nil
        with b True have e: "matchAll_from r i t = m0 # []"
          by (subst matchAll_from.simps) (simp add: m0_def)
        have "\<forall>p. i + max 1 (length u) \<le> p \<and> occursAt r s p \<longrightarrow> (\<exists>m\<in>set []. covers m p)"
          using len Nil by (auto simp: occursAt_def)
        then have "?P (m0 # [])" by (intro tail_case [of "[]"]) simp_all
        with e show ?thesis by simp
      next
        case (Cons x t')
        with b True have e: "matchAll_from r i t = m0 # matchAll_from r (Suc i) t'"
          by (subst matchAll_from.simps) (simp add: m0_def)
        have 1: "length t' < length t" using Cons by simp
        have 2: "Suc i \<le> length s" using len Cons by simp
        have 3: "t' = drop (Suc i) s" using t Cons by (metis drop_Suc tl_drop list.sel(3))
        note ih = IH [OF 1 2 3]
        have mx: "i + max 1 (length u) = Suc i" using un by simp
        from ih have
          a1: "\<forall>m\<in>set (matchAll_from r (Suc i) t'). Suc i \<le> m_index m \<and> matchAt r s (m_index m) = Some m" and
          s1: "sorted_wrt (\<lambda>a b. m_index a + max 1 (length (m_text a)) \<le> m_index b) (matchAll_from r (Suc i) t')" and
          c1: "\<forall>p. Suc i \<le> p \<and> occursAt r s p \<longrightarrow> (\<exists>m\<in>set (matchAll_from r (Suc i) t'). covers m p)"
          by blast+
        have "?P (m0 # matchAll_from r (Suc i) t')"
        proof (rule tail_case)
          show "\<forall>m\<in>set (matchAll_from r (Suc i) t'). i + max 1 (length u) \<le> m_index m \<and> matchAt r s (m_index m) = Some m"
            using a1 unfolding mx .
          show "sorted_wrt (\<lambda>a b. m_index a + max 1 (length (m_text a)) \<le> m_index b) (matchAll_from r (Suc i) t')"
            by (rule s1)
          show "\<forall>p. i + max 1 (length u) \<le> p \<and> occursAt r s p \<longrightarrow> (\<exists>m\<in>set (matchAll_from r (Suc i) t'). covers m p)"
            using c1 unfolding mx .
        qed
        with e show ?thesis by simp
      qed
    next
      case False
      with u have un: "u \<noteq> []" by simp
      from b False have e: "matchAll_from r i t = m0 # matchAll_from r j rest"
        by (subst matchAll_from.simps) (simp add: m0_def)
      have 1: "length rest < length t" using u un by simp
      have 2: "j \<le> length s" using len u by simp
      have 3: "rest = drop j s" using t u by (metis add.commute append_eq_conv_conj drop_drop)
      note ih = IH [OF 1 2 3]
      have mx: "i + max 1 (length u) = j" using u un by (cases u) simp_all
      from ih have
        a1: "\<forall>m\<in>set (matchAll_from r j rest). j \<le> m_index m \<and> matchAt r s (m_index m) = Some m" and
        s1: "sorted_wrt (\<lambda>a b. m_index a + max 1 (length (m_text a)) \<le> m_index b) (matchAll_from r j rest)" and
        c1: "\<forall>p. j \<le> p \<and> occursAt r s p \<longrightarrow> (\<exists>m\<in>set (matchAll_from r j rest). covers m p)"
        by blast+
      have "?P (m0 # matchAll_from r j rest)"
      proof (rule tail_case)
        show "\<forall>m\<in>set (matchAll_from r j rest). i + max 1 (length u) \<le> m_index m \<and> matchAt r s (m_index m) = Some m"
          using a1 unfolding mx .
        show "sorted_wrt (\<lambda>a b. m_index a + max 1 (length (m_text a)) \<le> m_index b) (matchAll_from r j rest)"
          by (rule s1)
        show "\<forall>p. i + max 1 (length u) \<le> p \<and> occursAt r s p \<longrightarrow> (\<exists>m\<in>set (matchAll_from r j rest). covers m p)"
          using c1 unfolding mx .
      qed
      with e show ?thesis by simp
    qed
  qed
qed

lemma matchAll_from_index: "m \<in> set (matchAll_from r i t) \<Longrightarrow> i \<le> m_index m"
  using matchAll_from_props [of i "replicate i 0 @ t" t r] by simp

lemma cut_shift:
  "\<forall>m\<in>set ms. Suc i \<le> m_index m \<Longrightarrow> cut i (c # s) ms = c # cut (Suc i) s ms"
proof (cases ms)
  case Nil
  then show ?thesis by simp
next
  case (Cons m ms')
  assume "\<forall>m\<in>set ms. Suc i \<le> m_index m"
  with Cons have "Suc i \<le> m_index m" by simp
  then obtain d where d: "m_index m = Suc i + d" using le_Suc_ex by blast
  with Cons show ?thesis by simp
qed

lemma LineBreakRE_backtrack:
  "backtrack LineBreakRE (i, s, []) =
     (case s of
        [] \<Rightarrow> []
      | c # t \<Rightarrow>
          if c = 0x0A then [(Suc i, t, [])]
          else if c = 0x0D \<and> t \<noteq> [] \<and> hd t = 0x0A then [(Suc (Suc i), tl t, [])]
          else [])"
  by (cases s; cases "tl s") (auto simp: LineBreakRE_def opt_def)

lemma cut_LineBreakRE:
  "cut i s (matchAll_from LineBreakRE i s) = withoutLineBreaks s"
proof (induction s arbitrary: i rule: withoutLineBreaks.induct)
  case 1
  show ?case by (subst matchAll_from.simps) (simp add: LineBreakRE_backtrack)
next
  case (2 c s)
  consider (lf) "c = 0x0A" | (crlf) "c \<noteq> 0x0A" "c = 0x0D \<and> s \<noteq> [] \<and> hd s = 0x0A"
    | (other) "c \<noteq> 0x0A" "\<not> (c = 0x0D \<and> s \<noteq> [] \<and> hd s = 0x0A)" by blast
  then show ?case
  proof cases
    case lf
    then have "matchAll_from LineBreakRE i (c # s) =
        found i (c # s) (Suc i, s, []) # matchAll_from LineBreakRE (Suc i) s"
      by (subst matchAll_from.simps) (simp add: LineBreakRE_backtrack)
    with lf "2.IH"(1) [of "Suc i"] show ?thesis by (simp add: found_def)
  next
    case crlf
    then obtain t where t: "s = 0x0A # t" by (cases s) auto
    with crlf have "matchAll_from LineBreakRE i (c # s) =
        found i (c # s) (Suc (Suc i), t, []) # matchAll_from LineBreakRE (Suc (Suc i)) t"
      by (subst matchAll_from.simps) (simp add: LineBreakRE_backtrack)
    with crlf t "2.IH"(2) [of "Suc (Suc i)"] show ?thesis by (simp add: found_def)
  next
    case other
    then have e: "matchAll_from LineBreakRE i (c # s) = matchAll_from LineBreakRE (Suc i) s"
      by (subst matchAll_from.simps) (auto simp: LineBreakRE_backtrack)
    have "\<forall>m\<in>set (matchAll_from LineBreakRE (Suc i) s). Suc i \<le> m_index m"
      using matchAll_from_index by blast
    from cut_shift [OF this] have
      "cut i (c # s) (matchAll_from LineBreakRE (Suc i) s) =
       c # cut (Suc i) s (matchAll_from LineBreakRE (Suc i) s)" .
    with e other "2.IH"(3) [of "Suc i"] show ?thesis by auto
  qed
qed

lemma removeAll_LineBreakRE: "removeAll s LineBreakRE = withoutLineBreaks s"
  by (simp add: removeAll_def matchAll_def cut_LineBreakRE)

lemma matchAll_props:
  "(\<forall>m\<in>set (matchAll s r). matchAt r s (m_index m) = Some m) \<and>
   inDocumentOrder (matchAll s r) \<and>
   (\<forall>p. occursAt r s p \<longrightarrow> (\<exists>m\<in>set (matchAll s r). covers m p))"
  using matchAll_from_props [of 0 s s r] by (simp add: matchAll_def inDocumentOrder_def)

text \<open>
  Claim C6, as amended. A chunk whose length is at most the threshold yields no record
  and is ignored entirely: the comparison of the code is strict, so a chunk of exactly
  the threshold is dropped as well. For a longer chunk, the line breaks are taken out of
  the decoded text, and the records are the matches of the framing pattern in it: they
  stand in document order without overlapping, each is the match of the pattern at its
  index and binds the message, the date, the time and the host (the mark of a message of
  the bot itself is optional), and every index at which the pattern occurs is covered by
  one of them, so that no occurrence is left out but one that overlaps a record found
  before it.
\<close>

theorem frames_of_chunk:
  fixes env data
  defines "body \<equiv> withoutLineBreaks (toString env data)"
  shows "(length data \<le> threshold env \<longrightarrow>
            frames env data = [] \<and> (\<forall>st. acceptKoukoku env data st = (None, st))) \<and>
         (threshold env < length data \<longrightarrow>
            frames env data = matchAll body MessageRE \<and>
            inDocumentOrder (frames env data) \<and>
            (\<forall>m\<in>set (frames env data).
               matchAt MessageRE body (m_index m) = Some m \<and>
               groupOf m ''msg'' \<noteq> None \<and> groupOf m ''date'' \<noteq> None \<and>
               groupOf m ''time'' \<noteq> None \<and> groupOf m ''host'' \<noteq> None) \<and>
            (\<forall>p. occursAt MessageRE body p \<longrightarrow> (\<exists>m\<in>set (frames env data). covers m p)))"
proof (intro conjI impI)
  assume "length data \<le> threshold env"
  then show "frames env data = []" by (simp add: frames_def)
  then show "\<forall>st. acceptKoukoku env data st = (None, st)" by (simp add: acceptKoukoku_def)
next
  assume "threshold env < length data"
  then have f: "frames env data = matchAll body MessageRE"
    by (simp add: frames_def body_def removeAll_LineBreakRE)
  note p = matchAll_props [of body MessageRE]
  show "frames env data = matchAll body MessageRE" by (rule f)
  show "inDocumentOrder (frames env data)" using p f by simp
  show "\<forall>p. occursAt MessageRE body p \<longrightarrow> (\<exists>m\<in>set (frames env data). covers m p)"
    using p f by simp
  show "\<forall>m\<in>set (frames env data).
               matchAt MessageRE body (m_index m) = Some m \<and>
               groupOf m ''msg'' \<noteq> None \<and> groupOf m ''date'' \<noteq> None \<and>
               groupOf m ''time'' \<noteq> None \<and> groupOf m ''host'' \<noteq> None"
  proof
    fix m assume "m \<in> set (frames env data)"
    with p f have at: "matchAt MessageRE body (m_index m) = Some m" by simp
    from MessageRE_binds have
      "''msg'' \<in> binds MessageRE" "''date'' \<in> binds MessageRE"
      "''time'' \<in> binds MessageRE" "''host'' \<in> binds MessageRE" by auto
    with at matchAt_binds [OF at] show "matchAt MessageRE body (m_index m) = Some m \<and>
               groupOf m ''msg'' \<noteq> None \<and> groupOf m ''date'' \<noteq> None \<and>
               groupOf m ''time'' \<noteq> None \<and> groupOf m ''host'' \<noteq> None" by blast
  qed
qed

theorem frames_of_chunk_witness:
  "threshold env0 < length chunkCalc \<and>
   frames env0 chunkCalc =
     [frameMatch 0 calcBody wednesday (js ''07:13:20'') (js ''host1.example.jp'') False,
      frameMatch 68 [0x4E86, 0x89E3] wednesday (js ''07:13:21'') (js ''host2.example.jp'') True] \<and>
   inDocumentOrder (frames env0 chunkCalc) \<and>
   length chunk70 \<le> threshold env0 \<and> frames env0 chunk70 = []"
proof -
  have 1: "threshold env0 < length chunkCalc" by (simp add: env0_def chunkCalc_def)
  have 2: "length chunk70 \<le> threshold env0" by (simp add: env0_def chunk70_def)
  from frames_of_chunk [of chunkCalc env0] 1 have "inDocumentOrder (frames env0 chunkCalc)"
    by blast
  moreover from frames_of_chunk [of chunk70 env0] 2 have "frames env0 chunk70 = []" by blast
  ultimately show ?thesis using 1 2 chunkCalc_frames by simp
qed

text \<open>
  Claim C6 as stated fails at the threshold: a chunk of exactly 70 bytes, the threshold of
  the constructor, that holds a complete record yields no record.
\<close>

theorem frames_at_threshold_counterexample:
  "length chunk70 = threshold env0 \<and>
   matchAll (withoutLineBreaks (toString env0 chunk70)) MessageRE =
     [frameMatch 0 (js ''x'') wednesday (js ''07:13:20'') (js ''a.jp'') False] \<and>
   frames env0 chunk70 = []"
  by (simp add: frames_def frame_defs regex_defs env0_def chunk70_def)

subsection \<open>Tally engine\<close>

lemma map_of_replace:
  "map_of (map (\<lambda>(k', v'). if k' = k then (k', v) else (k', v')) m) x =
     (if x = k then map_option (\<lambda>_. v) (map_of m k) else map_of m x)"
proof (induction m)
  case Nil
  show ?case by simp
next
  case (Cons a m)
  obtain k' v' where a: "a = (k', v')" by (cases a)
  show ?case
  proof (cases "k' = k")
    case True
    with a Cons show ?thesis by simp
  next
    case False
    with a Cons show ?thesis by (cases "x = k") simp_all
  qed
qed

lemma map_of_mapSet: "map_of (mapSet k v m) = (map_of m)(k \<mapsto> v)"
proof (cases "k \<in> fst ` set m")
  case False
  then have "map_of m k = None" by (simp add: map_of_eq_None_iff)
  with False show ?thesis
    by (auto simp: mapSet_def fun_eq_iff map_add_def split: option.splits)
next
  case True
  then obtain y where "map_of m k = Some y"
    by (metis map_of_eq_None_iff not_Some_eq)
  with True show ?thesis by (simp add: mapSet_def fun_eq_iff map_of_replace)
qed

lemma keys_mapSet:
  "map fst (mapSet k v m) = (if k \<in> fst ` set m then map fst m else map fst m @ [k])"
proof -
  have "map fst (map (\<lambda>(k', v'). if k' = k then (k', v) else (k', v')) m) = map fst m"
    by (induction m) (auto split: if_splits)
  then show ?thesis by (simp add: mapSet_def)
qed

lemma distinct_mapSet: "distinct (map fst m) \<Longrightarrow> distinct (map fst (mapSet k v m))"
  by (simp add: keys_mapSet)

lemma set_keys_mapSet: "fst ` set (mapSet k v m) = insert k (fst ` set m)"
proof -
  have "fst ` set (mapSet k v m) = set (map fst (mapSet k v m))" by simp
  also have "\<dots> = insert k (fst ` set m)" unfolding keys_mapSet by auto
  finally show ?thesis .
qed

lemma tallyMatch_addEntry: "tallyMatch now item weekly m = addEntry weekly (weekOf now item, m)"
  by (simp add: tallyMatch_def addEntry_def bucket_def hostsOfWeek_def Let_def)

lemma foldl_concat: "foldl f a (concat xss) = foldl (foldl f) a xss"
  by (induction xss arbitrary: a) simp_all

lemma foldl_tallyMatch:
  "foldl (tallyMatch now item) weekly ms = foldl addEntry weekly (map (\<lambda>m. (weekOf now item, m)) ms)"
  by (induction ms arbitrary: weekly) (simp_all add: tallyMatch_addEntry)

lemma tallyWeekly_entries: "tallyWeekly now list = foldl addEntry [] (entries now list)"
proof -
  have "foldl (\<lambda>weekly item. foldl (tallyMatch now item) weekly (matchAll (log_message item) MessageRE)) a list =
      foldl addEntry a (concat (map (\<lambda>item. map (\<lambda>m. (weekOf now item, m)) (matchAll (log_message item) MessageRE)) list))"
    for a
    by (induction list arbitrary: a) (simp_all add: foldl_tallyMatch)
  then show ?thesis by (simp add: tallyWeekly_def entries_def)
qed

lemma hostsOfWeek_addEntry:
  "hostsOfWeek (addEntry weekly e) w =
     (if w = fst e
      then mapSet (groupOf (snd e) ''host'')
             (bucket weekly (fst e) (groupOf (snd e) ''host'') @ [snd e]) (hostsOfWeek weekly (fst e))
      else hostsOfWeek weekly w)"
  by (simp add: hostsOfWeek_def addEntry_def map_of_mapSet)

lemma bucket_addEntry:
  "bucket (addEntry weekly e) w h =
     (if w = fst e \<and> h = groupOf (snd e) ''host'' then bucket weekly w h @ [snd e]
      else bucket weekly w h)"
  by (simp add: bucket_def hostsOfWeek_addEntry map_of_mapSet)

lemma keys_addEntry: "fst ` set (addEntry weekly e) = insert (fst e) (fst ` set weekly)"
  by (simp add: addEntry_def set_keys_mapSet)

lemma distinct_addEntry: "distinct (map fst weekly) \<Longrightarrow> distinct (map fst (addEntry weekly e))"
  by (simp add: addEntry_def distinct_mapSet)

lemma wellFormed_addEntry: "wellFormed weekly \<Longrightarrow> wellFormed (addEntry weekly e)"
  by (simp add: wellFormed_def distinct_addEntry hostsOfWeek_addEntry distinct_mapSet)

lemma foldl_addEntry:
  assumes "wellFormed weekly"
  shows "wellFormed (foldl addEntry weekly es) \<and>
         fst ` set (foldl addEntry weekly es) = fst ` set weekly \<union> fst ` set es \<and>
         (\<forall>w. fst ` set (hostsOfWeek (foldl addEntry weekly es) w) =
                fst ` set (hostsOfWeek weekly w) \<union>
                {groupOf m ''host'' | m. (w, m) \<in> set es}) \<and>
         (\<forall>w h. bucket (foldl addEntry weekly es) w h =
                  bucket weekly w h @
                  map snd (filter (\<lambda>e. fst e = w \<and> groupOf (snd e) ''host'' = h) es))"
  using assms
proof (induction es arbitrary: weekly)
  case Nil
  then show ?case by simp
next
  case (Cons e es)
  from Cons.prems have wf: "wellFormed (addEntry weekly e)" by (rule wellFormed_addEntry)
  note ih = Cons.IH [OF wf]
  have hosts: "fst ` set (hostsOfWeek (addEntry weekly e) w) \<union> {groupOf m ''host'' | m. (w, m) \<in> set es} =
      fst ` set (hostsOfWeek weekly w) \<union> {groupOf m ''host'' | m. (w, m) \<in> set (e # es)}" for w
    by (cases e) (auto simp: hostsOfWeek_addEntry set_keys_mapSet)
  have buckets: "bucket (addEntry weekly e) w h @
                  map snd (filter (\<lambda>e. fst e = w \<and> groupOf (snd e) ''host'' = h) es) =
      bucket weekly w h @
                  map snd (filter (\<lambda>e. fst e = w \<and> groupOf (snd e) ''host'' = h) (e # es))" for w h
    by (auto simp: bucket_addEntry)
  from ih show ?case
    by (simp add: keys_addEntry hosts buckets del: filter.simps)
qed

lemma wellFormed_empty: "wellFormed []"
  by (simp add: wellFormed_def hostsOfWeek_def)

lemma tallyWeekly_props:
  "wellFormed (tallyWeekly now list) \<and>
   fst ` set (tallyWeekly now list) = occupiedWeeks now list \<and>
   (\<forall>w. fst ` set (hostsOfWeek (tallyWeekly now list) w) =
          {groupOf m ''host'' | m. (w, m) \<in> set (entries now list)}) \<and>
   (\<forall>w h. bucket (tallyWeekly now list) w h =
            map snd (filter (\<lambda>e. fst e = w \<and> groupOf (snd e) ''host'' = h) (entries now list)))"
  using foldl_addEntry [OF wellFormed_empty, of "entries now list"]
  by (simp add: tallyWeekly_entries occupiedWeeks_def hostsOfWeek_def bucket_def)

lemma mset_insertJS: "mset (insertJS compare x ys) = add_mset x (mset ys)"
  by (induction ys) simp_all

lemma mset_sortJS: "mset (sortJS compare xs) = mset xs"
  by (induction xs) (simp_all add: sortJS_def mset_insertJS)

lemma set_sortJS: "set (sortJS compare xs) = set xs"
  by (metis mset_sortJS set_mset_mset)

lemma length_sortJS: "length (sortJS compare xs) = length xs"
  by (metis mset_sortJS size_mset)

lemma distinct_keys_sortJS: "distinct (map fst (sortJS compare xs)) = distinct (map fst xs)"
proof -
  have "mset (map fst (sortJS compare xs)) = mset (map fst xs)"
    by (simp add: mset_sortJS)
  then show ?thesis by (rule mset_eq_imp_distinct_iff)
qed

lemma set_insertJS: "set (insertJS compare x ys) = insert x (set ys)"
  by (induction ys) auto

lemma sorted_insertJS:
  assumes total: "\<And>a b. D a \<Longrightarrow> D b \<Longrightarrow> compare a b \<le> 0 \<or> compare b a \<le> 0"
    and trans: "\<And>a b c. D a \<Longrightarrow> D b \<Longrightarrow> D c \<Longrightarrow>
                  compare a b \<le> 0 \<Longrightarrow> compare b c \<le> 0 \<Longrightarrow> compare a c \<le> 0"
    and dom: "D x" "\<forall>y\<in>set ys. D y"
    and sorted: "sorted_wrt (\<lambda>a b. compare a b \<le> 0) ys"
  shows "sorted_wrt (\<lambda>a b. compare a b \<le> 0) (insertJS compare x ys)"
  using dom(2) sorted
proof (induction ys)
  case Nil
  then show ?case by simp
next
  case (Cons y ys)
  from Cons.prems(1) have Dy: "D y" and Dys: "\<forall>z\<in>set ys. D z" by simp_all
  from Cons.prems(2) have yz: "\<forall>z\<in>set ys. compare y z \<le> 0"
    and s: "sorted_wrt (\<lambda>a b. compare a b \<le> 0) ys" by simp_all
  show ?case
  proof (cases "compare x y \<le> 0")
    case True
    have "\<forall>z\<in>set ys. compare x z \<le> 0"
    proof
      fix z assume z: "z \<in> set ys"
      with yz have "compare y z \<le> 0" by blast
      moreover from z Dys have "D z" by blast
      ultimately show "compare x z \<le> 0" using trans [OF dom(1) Dy _ True] by blast
    qed
    with True yz s show ?thesis by simp
  next
    case False
    with total [OF dom(1) Dy] have yx: "compare y x \<le> 0" by blast
    note ih = Cons.IH [OF Dys s]
    from yx yz have "\<forall>z\<in>set (insertJS compare x ys). compare y z \<le> 0"
      by (simp add: set_insertJS)
    with False ih show ?thesis by simp
  qed
qed

lemma sorted_sortJS:
  assumes total: "\<And>a b. D a \<Longrightarrow> D b \<Longrightarrow> compare a b \<le> 0 \<or> compare b a \<le> 0"
    and trans: "\<And>a b c. D a \<Longrightarrow> D b \<Longrightarrow> D c \<Longrightarrow>
                  compare a b \<le> 0 \<Longrightarrow> compare b c \<le> 0 \<Longrightarrow> compare a c \<le> 0"
    and dom: "\<forall>x\<in>set xs. D x"
  shows "sorted_wrt (\<lambda>a b. compare a b \<le> 0) (sortJS compare xs)"
  using dom
proof (induction xs)
  case Nil
  then show ?case by (simp add: sortJS_def)
next
  case (Cons x xs)
  from Cons.prems have Dx: "D x" and Dxs: "\<forall>y\<in>set xs. D y" by simp_all
  have s: "sorted_wrt (\<lambda>a b. compare a b \<le> 0) (sortJS compare xs)"
    using Cons.IH [OF Dxs] .
  have d: "\<forall>y\<in>set (sortJS compare xs). D y" using Dxs by (simp add: set_sortJS)
  have "sorted_wrt (\<lambda>a b. compare a b \<le> 0) (insertJS compare x (sortJS compare xs))"
    using total trans Dx d s by (rule sorted_insertJS)
  then show ?case by (simp add: sortJS_def)
qed

lemma entries_host: "(w, m) \<in> set (entries now list) \<Longrightarrow> groupOf m ''host'' \<noteq> None"
proof -
  assume "(w, m) \<in> set (entries now list)"
  then have "\<exists>item\<in>set list.
      (w, m) \<in> (\<lambda>m. (weekOf now item, m)) ` set (matchAll (log_message item) MessageRE)"
    by (simp add: entries_def)
  then obtain item where
    "(w, m) \<in> (\<lambda>m. (weekOf now item, m)) ` set (matchAll (log_message item) MessageRE)"
    by blast
  then have "m \<in> set (matchAll (log_message item) MessageRE)" by blast
  with matchAll_props [of "log_message item" MessageRE] have
    "matchAt MessageRE (log_message item) (m_index m) = Some m" by blast
  moreover from MessageRE_binds have "''host'' \<in> binds MessageRE" by auto
  ultimately show ?thesis by (rule matchAt_binds)
qed

lemma hostLines_Some:
  "\<forall>h\<in>fst ` set hosts. h \<noteq> None \<Longrightarrow>
   hostLines hosts = Inr (map (\<lambda>(h, ms). hostLine (the h) (length ms)) hosts)"
proof (induction hosts rule: hostLines.induct)
  case 1
  show ?case by simp
next
  case (2 ms es)
  then show ?case by simp
next
  case (3 host ms es)
  then show ?case by simp
qed

lemma hostLines_error: "hostLines hosts = Inl err \<Longrightarrow> err = TypeError"
  by (induction hosts arbitrary: err rule: hostLines.induct) (auto split: sum.splits)

lemma tallyOf_error: "tallyOf weekly name week = Inl err \<Longrightarrow> err = TypeError"
  by (auto simp: tallyOf_def split: option.splits sum.splits dest: hostLines_error)

lemma tallyWeekly_hosts:
  "h \<in> fst ` set (hostsOfWeek (tallyWeekly now list) w) \<Longrightarrow> h \<noteq> None"
proof -
  assume "h \<in> fst ` set (hostsOfWeek (tallyWeekly now list) w)"
  with tallyWeekly_props [of now list] obtain m where
    "h = groupOf m ''host''" "(w, m) \<in> set (entries now list)" by auto
  then show ?thesis using entries_host by blast
qed

lemma tallyOf_present:
  assumes "w \<in> fst ` set (tallyWeekly now list)"
  shows "tallyOf (tallyWeekly now list) name (Some w) =
           Inr (weekLine name (length (hostsOfWeek (tallyWeekly now list) w)) #
                take 5 (map (\<lambda>(h, ms). hostLine (the h) (length ms))
                          (sortJS descendingByFrequency (hostsOfWeek (tallyWeekly now list) w))))"
proof -
  from assms obtain hosts where m: "map_of (tallyWeekly now list) w = Some hosts"
    by (metis map_of_eq_None_iff not_Some_eq)
  then have h: "hostsOfWeek (tallyWeekly now list) w = hosts" by (simp add: hostsOfWeek_def)
  have "\<forall>h\<in>fst ` set (sortJS descendingByFrequency hosts). h \<noteq> None"
    using tallyWeekly_hosts [of _ now list w] h by (simp add: set_sortJS)
  from hostLines_Some [OF this] m h show ?thesis by (simp add: tallyOf_def)
qed

lemma card_occupiedWeeks: "card (occupiedWeeks now list) = length (tallyWeekly now list)"
proof -
  from tallyWeekly_props [of now list] have
    d: "distinct (map fst (tallyWeekly now list))" and
    s: "fst ` set (tallyWeekly now list) = occupiedWeeks now list"
    by (auto simp: wellFormed_def)
  from d have "card (set (map fst (tallyWeekly now list))) = length (map fst (tallyWeekly now list))"
    by (rule distinct_card)
  with s show ?thesis by simp
qed

text \<open>
  Claim C10. When the records of the cache occupy fewer than two weeks (an empty cache,
  or all records in one week), \<^verbatim>\<open>tally\<close> fails with a type error instead of returning a
  report: the week it asks for is absent and it reads the size of its map. So does
  \<^verbatim>\<open>tallyAsync\<close> at that moment on that cache. With at least two occupied weeks
  \<^verbatim>\<open>tally\<close> returns a report.
\<close>

theorem tally_needs_two_weeks:
  "(card (occupiedWeeks now list) < 2 \<longrightarrow>
      tally now list = Inl TypeError \<and>
      (clock env = now \<and> recent_list (recent st) = list \<longrightarrow>
         tallyAsync env matched st = (Some TypeError, st))) \<and>
   (2 \<le> card (occupiedWeeks now list) \<longrightarrow> (\<exists>lines. tally now list = Inr lines))"
proof (intro conjI impI)
  define weekly where "weekly = tallyWeekly now list"
  define weeks where "weeks = sortJS descending (map fst weekly)"
  have len: "length weeks = card (occupiedWeeks now list)"
    by (simp add: weeks_def weekly_def length_sortJS card_occupiedWeeks)
  have t: "tally now list =
      (case tallyOf weekly [0x4ECA] (nth_opt weeks 0) of
           Inl err \<Rightarrow> Inl err
         | Inr thisWeek \<Rightarrow>
             (case tallyOf weekly [0x5148] (nth_opt weeks 1) of
                Inl err \<Rightarrow> Inl err
              | Inr lastWeek \<Rightarrow> Inr (thisWeek @ lastWeek)))"
    unfolding tally_def weekly_def weeks_def Let_def by (rule refl)
  {
    assume few: "card (occupiedWeeks now list) < 2"
    with len have "nth_opt weeks 1 = None" by (simp add: nth_opt_def)
    then have 2: "tallyOf weekly [0x5148] (nth_opt weeks 1) = Inl TypeError"
      by (simp add: tallyOf_def)
    show e: "tally now list = Inl TypeError"
    proof (cases "tallyOf weekly [0x4ECA] (nth_opt weeks 0)")
      case (Inl err)
      with tallyOf_error have "err = TypeError" by blast
      with Inl t show ?thesis by simp
    next
      case (Inr thisWeek)
      with t 2 show ?thesis by simp
    qed
    assume "clock env = now \<and> recent_list (recent st) = list"
    with e show "tallyAsync env matched st = (Some TypeError, st)"
      by (simp add: tallyAsync_def)
  }
  {
    assume many: "2 \<le> card (occupiedWeeks now list)"
    with len have l: "0 < length weeks" "1 < length weeks" by simp_all
    have s: "set weeks = fst ` set weekly" by (simp add: weeks_def set_sortJS)
    from l s have 0: "weeks ! 0 \<in> fst ` set weekly" and 1: "weeks ! 1 \<in> fst ` set weekly"
      using nth_mem by blast+
    from l have n: "nth_opt weeks 0 = Some (weeks ! 0)" "nth_opt weeks 1 = Some (weeks ! 1)"
      by (simp_all add: nth_opt_def)
    from tallyOf_present [of "weeks ! 0" now list "[0x4ECA]"] 0
    obtain l0 where l0: "tallyOf weekly [0x4ECA] (Some (weeks ! 0)) = Inr l0"
      by (simp add: weekly_def)
    from tallyOf_present [of "weeks ! 1" now list "[0x5148]"] 1
    obtain l1 where l1: "tallyOf weekly [0x5148] (Some (weeks ! 1)) = Inr l1"
      by (simp add: weekly_def)
    from t n l0 l1 have "tally now list = Inr (l0 @ l1)" by simp
    then show "\<exists>lines. tally now list = Inr lines" by blast
  }
qed

lemma weekOf_specWeek: "weekOf now item = map_option (specWeek now) (timestampOf item)"
proof (cases "timestampOf item")
  case None
  then show ?thesis by (simp add: weekOf_def)
next
  case (Some t)
  have d: "real_of_int \<lfloor>(real_of_int t - real_of_int (epoch now)) / 86400000\<rfloor> =
      real_of_int ((t - epoch now) div 86400000)"
    using floor_divide_of_int_eq [of "t - epoch now" 86400000, where ?'a = real] by simp
  have "specWeek now t = \<lceil>real_of_int (weekday now + 1 + (t - epoch now) div 86400000) / real_of_int 7\<rceil>"
    by (simp add: specWeek_def d)
  also have "\<dots> = - (- (weekday now + 1 + (t - epoch now) div 86400000) div 7)"
    by (rule ceiling_divide_eq_div)
  finally show ?thesis using Some by (simp add: weekOf_def numberOfDays_def)
qed

lemma entries_week:
  assumes "\<forall>item\<in>set list. timestampOf item \<noteq> None" and "(w, m) \<in> set (entries now list)"
  shows "w \<noteq> None"
proof -
  from assms(2) have "\<exists>item\<in>set list.
      (w, m) \<in> (\<lambda>m. (weekOf now item, m)) ` set (matchAll (log_message item) MessageRE)"
    by (simp add: entries_def)
  then obtain item where "item \<in> set list" "w = weekOf now item" by blast
  with assms(1) show ?thesis by (auto simp: weekOf_def split: option.splits)
qed

lemma descending_total: "a \<noteq> None \<Longrightarrow> b \<noteq> None \<Longrightarrow> descending a b \<le> 0 \<or> descending b a \<le> 0"
  by (auto simp: descending_def)

lemma descending_trans:
  "a \<noteq> None \<Longrightarrow> b \<noteq> None \<Longrightarrow> c \<noteq> None \<Longrightarrow>
   descending a b \<le> 0 \<Longrightarrow> descending b c \<le> 0 \<Longrightarrow> descending a c \<le> 0"
  by (auto simp: descending_def)

lemma weeks_sorted:
  fixes now list
  assumes "\<forall>item\<in>set list. timestampOf item \<noteq> None"
  defines "weeks \<equiv> sortJS descending (map fst (tallyWeekly now list))"
  shows "set weeks = occupiedWeeks now list \<and> distinct weeks \<and> (\<forall>w\<in>set weeks. w \<noteq> None) \<and>
         sorted_wrt (\<lambda>a b. the b < the a) weeks"
proof -
  from tallyWeekly_props [of now list] have
    d: "distinct (map fst (tallyWeekly now list))" and
    s: "fst ` set (tallyWeekly now list) = occupiedWeeks now list"
    by (auto simp: wellFormed_def)
  have set: "set weeks = occupiedWeeks now list" using s by (simp add: weeks_def set_sortJS)
  have "mset weeks = mset (map fst (tallyWeekly now list))" by (simp add: weeks_def mset_sortJS)
  with d have dist: "distinct weeks" by (metis mset_eq_imp_distinct_iff)
  have some: "\<forall>w\<in>set weeks. w \<noteq> None"
    using set entries_week [OF assms(1)] by (auto simp: occupiedWeeks_def)
  have dom: "\<forall>w\<in>set (map fst (tallyWeekly now list)). w \<noteq> None"
    using some by (simp add: weeks_def set_sortJS)
  have "sorted_wrt (\<lambda>a b. descending a b \<le> 0) weeks"
    unfolding weeks_def
    by (rule sorted_sortJS [where D = "\<lambda>w. w \<noteq> None"])
      (use descending_total descending_trans dom in blast)+
  then have "sorted_wrt (\<lambda>a b. descending a b \<le> 0 \<and> a \<noteq> b \<and> a \<noteq> None \<and> b \<noteq> None) weeks"
    using dist some by (induction weeks) auto
  then have "sorted_wrt (\<lambda>a b. the b < the a) weeks"
    by (rule sorted_wrt_mono_rel [rotated]) (auto simp: descending_def)
  with set dist some show ?thesis by blast
qed

lemma descendingByFrequency_le:
  "descendingByFrequency a b \<le> 0 \<longleftrightarrow> length (snd b) \<le> length (snd a)"
  by (simp add: descendingByFrequency_def)

lemma hostsInI:
  assumes "(Some w, m) \<in> set (entries now list)" and "groupOf m ''host'' = Some h"
  shows "h \<in> hostsIn now list w"
  unfolding hostsIn_def using assms by (intro CollectI exI conjI)

lemma hostsInE:
  assumes "h \<in> hostsIn now list w"
  obtains m where "(Some w, m) \<in> set (entries now list)" and "groupOf m ''host'' = Some h"
proof -
  from assms have "\<exists>m. (Some w, m) \<in> set (entries now list) \<and> groupOf m ''host'' = Some h"
    unfolding hostsIn_def by (rule CollectD)
  then obtain m where "(Some w, m) \<in> set (entries now list) \<and> groupOf m ''host'' = Some h" ..
  with that show ?thesis by (elim conjE)
qed

lemma ranking_of_week:
  fixes now list w
  defines "hosts \<equiv> hostsOfWeek (tallyWeekly now list) (Some w)"
  defines "ranking \<equiv> map (\<lambda>(h, ms). (the h, length ms)) (sortJS descendingByFrequency hosts)"
  shows "isRanking now list w ranking \<and> length hosts = card (hostsIn now list w) \<and>
         map (\<lambda>(h, ms). hostLine (the h) (length ms)) (sortJS descendingByFrequency hosts) =
         map (\<lambda>(h, n). hostLine h n) ranking"
proof -
  let ?sorted = "sortJS descendingByFrequency hosts"
  note p = tallyWeekly_props [of now list]
  from p have dk: "distinct (map fst hosts)" by (simp add: wellFormed_def hosts_def)
  from p have keys: "fst ` set hosts = {groupOf m ''host'' | m. (Some w, m) \<in> set (entries now list)}"
    by (simp add: hosts_def)
  have some: "\<forall>h\<in>fst ` set hosts. h \<noteq> None"
    using tallyWeekly_hosts [of _ now list "Some w"] by (simp add: hosts_def)
  have keys': "fst ` set hosts = Some ` hostsIn now list w"
  proof
    show "fst ` set hosts \<subseteq> Some ` hostsIn now list w"
    proof
      fix h assume h: "h \<in> fst ` set hosts"
      with some obtain x where x: "h = Some x" by (cases h) auto
      from h keys obtain m where "h = groupOf m ''host''" "(Some w, m) \<in> set (entries now list)"
        by auto
      with x have "x \<in> hostsIn now list w" by (intro hostsInI [of w m]) simp_all
      with x show "h \<in> Some ` hostsIn now list w" by simp
    qed
    show "Some ` hostsIn now list w \<subseteq> fst ` set hosts"
    proof
      fix h assume "h \<in> Some ` hostsIn now list w"
      then obtain x where "h = Some x" "x \<in> hostsIn now list w" by blast
      then obtain m where "(Some w, m) \<in> set (entries now list)" "groupOf m ''host'' = h"
        by (auto elim: hostsInE)
      then show "h \<in> fst ` set hosts" unfolding keys by blast
    qed
  qed
  have entry: "length ms = countOf now list w x" if "(Some x, ms) \<in> set hosts" for x ms
  proof -
    from that dk have "map_of hosts (Some x) = Some ms" by simp
    then have "bucket (tallyWeekly now list) (Some w) (Some x) = ms"
      by (simp add: bucket_def hosts_def)
    with p have "ms = map snd (filter (\<lambda>e. fst e = Some w \<and> groupOf (snd e) ''host'' = Some x) (entries now list))"
      by simp
    then show ?thesis by (simp add: countOf_def)
  qed
  have len: "length hosts = card (hostsIn now list w)"
  proof -
    from dk have "length hosts = card (fst ` set hosts)"
      by (metis distinct_card length_map set_map)
    also have "\<dots> = card (hostsIn now list w)" unfolding keys' by (simp add: card_image)
    finally show ?thesis .
  qed
  have sset: "set ?sorted = set hosts" by (rule set_sortJS)
  have fst_ranking: "map fst ranking = map (\<lambda>e. the (fst e)) ?sorted"
    by (simp add: ranking_def case_prod_beta)
  have "distinct (map fst ?sorted)" using dk by (simp add: distinct_keys_sortJS)
  moreover have "inj_on the (set (map fst ?sorted))"
  proof (rule inj_onI)
    fix a b assume a: "a \<in> set (map fst ?sorted)" and b: "b \<in> set (map fst ?sorted)"
      and e: "the a = the b"
    from a b sset have "a \<in> fst ` set hosts" "b \<in> fst ` set hosts" by simp_all
    with some have "a \<noteq> None" "b \<noteq> None" by blast+
    with e show "a = b" by (metis option.collapse)
  qed
  ultimately have "distinct (map the (map fst ?sorted))" by (simp only: distinct_map)
  then have d: "distinct (map fst ranking)" by (simp add: fst_ranking comp_def)
  have s: "set ranking = (\<lambda>h. (h, countOf now list w h)) ` hostsIn now list w"
  proof
    show "set ranking \<subseteq> (\<lambda>h. (h, countOf now list w h)) ` hostsIn now list w"
    proof
      fix e assume "e \<in> set ranking"
      then obtain h ms where hm: "(h, ms) \<in> set hosts" and e: "e = (the h, length ms)"
        using sset by (auto simp: ranking_def)
      from hm some obtain x where x: "h = Some x" by (cases h) force+
      with hm entry have "length ms = countOf now list w x" by blast
      moreover from hm x keys' have "x \<in> hostsIn now list w" by force
      ultimately show "e \<in> (\<lambda>h. (h, countOf now list w h)) ` hostsIn now list w"
        using e x by simp
    qed
    show "(\<lambda>h. (h, countOf now list w h)) ` hostsIn now list w \<subseteq> set ranking"
    proof
      fix e assume "e \<in> (\<lambda>h. (h, countOf now list w h)) ` hostsIn now list w"
      then obtain x where x: "x \<in> hostsIn now list w" and e: "e = (x, countOf now list w x)" by blast
      from x keys' have "Some x \<in> fst ` set hosts" by blast
      then obtain ms where ms: "(Some x, ms) \<in> set hosts" by force
      with entry have "length ms = countOf now list w x" by blast
      with ms e sset show "e \<in> set ranking" by (force simp: ranking_def)
    qed
  qed
  have "sorted_wrt (\<lambda>a b. descendingByFrequency a b \<le> 0) ?sorted"
    by (rule sorted_sortJS [where D = "\<lambda>e. True"]) (auto simp: descendingByFrequency_le)
  then have "sorted_wrt (\<lambda>a b. length (snd b) \<le> length (snd a)) ?sorted"
    by (simp add: descendingByFrequency_le)
  then have o: "sorted_wrt (\<lambda>a b. snd b \<le> snd a) ranking"
    by (simp add: ranking_def sorted_wrt_map case_prod_beta)
  have m: "map (\<lambda>(h, ms). hostLine (the h) (length ms)) ?sorted = map (\<lambda>(h, n). hostLine h n) ranking"
    by (simp add: ranking_def case_prod_beta)
  from d s o len m show ?thesis by (simp add: isRanking_def)
qed

lemma tallyOf_absent: "tallyOf weekly name None = Inl TypeError"
  by (simp add: tallyOf_def)

subsection \<open>The lines of the report\<close>

text \<open>The mask pattern removes from a host name exactly what \<open>unmask\<close> leaves out: at a
  star the first match of the pattern is the longest one, the runs of stars with their
  separators as far as they go, and the search goes on behind it.\<close>

lemma unmaskFrom_maskRest: "unmaskFrom b s = unmaskFrom False (maskRest b s)"
  by (induction s arbitrary: b) auto

lemma length_maskRest: "length (maskRest b s) \<le> length s"
  by (induction s arbitrary: b) (auto intro: le_SucI)

lemma maskRest_groupRest: "maskRest True t = maskRest False (groupRest t)"
proof (induction t)
  case Nil
  show ?case by (simp add: groupRest_def)
next
  case (Cons c r)
  then show ?case by (auto simp: groupRest_def)
qed

lemma length_groupRest: "length (groupRest t) \<le> length t"
proof -
  have "length (dropWhile (\<lambda>c. c = 0x2A) t) \<le> length t" by (rule length_dropWhile_le)
  then show ?thesis by (auto simp: groupRest_def split: list.splits)
qed

lemma hd_concat_map:
  "xs \<noteq> [] \<Longrightarrow> f (hd xs) \<noteq> [] \<Longrightarrow>
   concat (map f xs) \<noteq> [] \<and> hd (concat (map f xs)) = hd (f (hd xs))"
  by (cases xs) simp_all

lemma maskStars_nonempty: "backtrack maskStars (i, s, g) \<noteq> []"
  unfolding maskStars_def by (subst backtrack.simps(5)) simp

lemma maskStars_cons:
  "backtrack maskStars (i, c # s, g) =
     (if c = 0x2A then backtrack maskStars (Suc i, s, g) @ [(i, c # s, g)] else [(i, c # s, g)])"
  unfolding maskStars_def by (subst backtrack.simps(5)) simp

lemma maskStars_hd:
  "\<exists>j. hd (backtrack maskStars (i, s, g)) = (j, dropWhile (\<lambda>c. c = 0x2A) s, g)"
proof (induction s arbitrary: i)
  case Nil
  show ?case unfolding maskStars_def by (subst backtrack.simps(5)) simp
next
  case (Cons c s)
  from Cons [of "Suc i"] maskStars_nonempty [of "Suc i" s g] show ?case
    by (auto simp: maskStars_cons)
qed

lemma maskSep_hd:
  "backtrack maskSep (j, u, g) \<noteq> [] \<and>
   hd (backtrack maskSep (j, u, g)) =
     (case u of [] \<Rightarrow> (j, [], g)
      | c # r \<Rightarrow> if c = 0x2D \<or> c = 0x2E then (Suc j, r, g) else (j, c # r, g))"
  by (cases u) (simp_all add: maskSep_def opt_def)

lemma maskGroup_none: "s = [] \<or> hd s \<noteq> 0x2A \<Longrightarrow> backtrack maskGroup (i, s, g) = []"
  by (cases s) (simp_all add: maskGroup_def many1_def del: backtrack.simps(5))

lemma maskGroup_star:
  "backtrack maskGroup (i, 0x2A # t, g) =
     concat (map (backtrack maskSep) (backtrack maskStars (Suc i, t, g)))"
  by (simp add: maskGroup_def many1_def maskStars_def del: backtrack.simps(5))

lemma maskGroup_hd:
  "backtrack maskGroup (i, 0x2A # t, g) \<noteq> [] \<and>
   (\<exists>j. hd (backtrack maskGroup (i, 0x2A # t, g)) = (j, groupRest t, g))"
proof -
  let ?L = "backtrack maskStars (Suc i, t, g)"
  have ne: "?L \<noteq> []" by (rule maskStars_nonempty)
  from maskStars_hd [of "Suc i" t g] obtain j where
    j: "hd ?L = (j, dropWhile (\<lambda>c. c = 0x2A) t, g)" by blast
  note sep = maskSep_hd [of j "dropWhile (\<lambda>c. c = 0x2A) t" g]
  from sep have n2: "backtrack maskSep (hd ?L) \<noteq> []" by (simp add: j)
  have "\<exists>k. hd (backtrack maskSep (j, u, g)) =
      (k, case u of [] \<Rightarrow> [] | c # r \<Rightarrow> if c = 0x2D \<or> c = 0x2E then r else c # r, g)" for u
    by (cases u) (simp_all add: maskSep_def opt_def)
  then have "\<exists>k. hd (backtrack maskSep (j, dropWhile (\<lambda>c. c = 0x2A) t, g)) = (k, groupRest t, g)"
    unfolding groupRest_def by blast
  then have h2: "\<exists>k. hd (backtrack maskSep (hd ?L)) = (k, groupRest t, g)" by (simp only: j)
  from hd_concat_map [of ?L "backtrack maskSep", OF ne n2] h2 show ?thesis
    by (simp only: maskGroup_star) simp
qed

lemma maskGroups_unfold:
  "backtrack (Star maskGroup) (i, s, g) =
     concat (map (\<lambda>(i', s', g').
                    if length s' < length s then backtrack (Star maskGroup) (i', s', g') else [])
                 (backtrack maskGroup (i, s, g))) @ [(i, s, g)]"
  by (rule backtrack.simps(5))

lemma maskGroups_nonempty: "backtrack (Star maskGroup) (i, s, g) \<noteq> []"
  by (subst maskGroups_unfold) simp

lemma maskGroups_hd: "\<exists>j. hd (backtrack (Star maskGroup) (i, s, g)) = (j, maskRest False s, g)"
proof (induction s arbitrary: i rule: length_induct)
  case (1 s)
  show ?case
  proof (cases "s = [] \<or> hd s \<noteq> 0x2A")
    case True
    then have "backtrack (Star maskGroup) (i, s, g) = [(i, s, g)]"
      by (subst maskGroups_unfold) (simp only: maskGroup_none, simp)
    moreover from True have "maskRest False s = s" by (cases s) auto
    ultimately show ?thesis by (simp del: backtrack.simps)
  next
    case False
    then obtain t where s: "s = 0x2A # t" by (cases s) auto
    let ?G = "backtrack maskGroup (i, s, g)"
    let ?F = "\<lambda>(i', s', g'). if length s' < length s then backtrack (Star maskGroup) (i', s', g') else []"
    from maskGroup_hd [of i t g] s obtain j where
      ne: "?G \<noteq> []" and j: "hd ?G = (j, groupRest t, g)" by auto
    have short: "length (groupRest t) < length s" using length_groupRest [of t] s by simp
    then have f: "?F (hd ?G) = backtrack (Star maskGroup) (j, groupRest t, g)" by (simp only: j) simp
    with maskGroups_nonempty have fn: "?F (hd ?G) \<noteq> []" by (simp only:) simp
    from hd_concat_map [of ?G ?F, OF ne fn] have
      c: "concat (map ?F ?G) \<noteq> []" "hd (concat (map ?F ?G)) = hd (?F (hd ?G))" by blast+
    have "hd (backtrack (Star maskGroup) (i, s, g)) = hd (concat (map ?F ?G))"
      by (subst maskGroups_unfold) (simp only: hd_append2 [OF c(1)])
    with c(2) f have h: "hd (backtrack (Star maskGroup) (i, s, g)) =
        hd (backtrack (Star maskGroup) (j, groupRest t, g))" by (simp only:)
    from 1 short obtain k where
      "hd (backtrack (Star maskGroup) (j, groupRest t, g)) = (k, maskRest False (groupRest t), g)"
      by blast
    with h s show ?thesis by (simp add: maskRest_groupRest del: backtrack.simps)
  qed
qed

lemma MaskRE_maskGroup: "MaskRE = Seq maskGroup (Star maskGroup)"
  by (simp add: MaskRE_def maskGroup_def maskSep_def many1_def)

lemma MaskRE_none: "s = [] \<or> hd s \<noteq> 0x2A \<Longrightarrow> backtrack MaskRE (i, s, g) = []"
  by (simp add: MaskRE_maskGroup maskGroup_none del: backtrack.simps(5))

lemma MaskRE_hd:
  "backtrack MaskRE (i, 0x2A # t, g) \<noteq> [] \<and>
   (\<exists>j. hd (backtrack MaskRE (i, 0x2A # t, g)) = (j, maskRest True t, g))"
proof -
  let ?G = "backtrack maskGroup (i, 0x2A # t, g)"
  from maskGroup_hd [of i t g] obtain j where
    ne: "?G \<noteq> []" and j: "hd ?G = (j, groupRest t, g)" by auto
  have e: "backtrack MaskRE (i, 0x2A # t, g) = concat (map (backtrack (Star maskGroup)) ?G)"
    by (simp add: MaskRE_maskGroup del: backtrack.simps(5))
  have fn: "backtrack (Star maskGroup) (hd ?G) \<noteq> []"
    by (simp only: j maskGroups_nonempty not_False_eq_True)
  from maskGroups_hd [of j "groupRest t" g] obtain k where
    "hd (backtrack (Star maskGroup) (hd ?G)) = (k, maskRest False (groupRest t), g)"
    by (simp only: j) blast
  with hd_concat_map [of ?G "backtrack (Star maskGroup)", OF ne fn] show ?thesis
    by (simp only: e maskRest_groupRest) simp
qed

lemma cut_MaskRE: "cut i s (matchAll_from MaskRE i s) = unmaskFrom False s"
proof (induction s arbitrary: i rule: length_induct)
  case (1 s)
  show ?case
  proof (cases s)
    case Nil
    then show ?thesis by (subst matchAll_from.simps) (simp add: MaskRE_none)
  next
    case (Cons c t)
    show ?thesis
    proof (cases "c = 0x2A")
      case False
      with Cons have e: "matchAll_from MaskRE i s = matchAll_from MaskRE (Suc i) t"
        by (subst matchAll_from.simps) (simp add: MaskRE_none)
      have "\<forall>m\<in>set (matchAll_from MaskRE (Suc i) t). Suc i \<le> m_index m"
        using matchAll_from_index by blast
      from cut_shift [OF this] have
        "cut i (c # t) (matchAll_from MaskRE (Suc i) t) =
         c # cut (Suc i) t (matchAll_from MaskRE (Suc i) t)" .
      with e Cons False 1 show ?thesis by simp
    next
      case True
      with Cons have s: "s = 0x2A # t" by simp
      from MaskRE_hd [of i t "[]"] obtain j xs where
        b: "backtrack MaskRE (i, s, []) = (j, maskRest True t, []) # xs"
        unfolding s by (cases "backtrack MaskRE (i, 0x2A # t, [])") auto
      then have "(j, maskRest True t, []) \<in> set (backtrack MaskRE (i, s, []))" by simp
      from backtrack_suffix [OF this] obtain u where
        u: "s = u @ maskRest True t" "j = i + length u" by blast
      have "length (maskRest True t) \<le> length t" by (rule length_maskRest)
      with s have short: "length (maskRest True t) < length s" by simp
      with u have un: "u \<noteq> []" by auto
      with u have ji: "j \<noteq> i" by simp
      from b ji have "matchAll_from MaskRE i s =
          found i s (j, maskRest True t, []) # matchAll_from MaskRE j (maskRest True t)"
        by (subst matchAll_from.simps) simp
      then have "cut i s (matchAll_from MaskRE i s) =
          cut j (maskRest True t) (matchAll_from MaskRE j (maskRest True t))"
        using u by (simp add: found_def)
      also have "\<dots> = unmaskFrom False (maskRest True t)" using 1 short by blast
      also have "\<dots> = unmaskFrom False s" using s unmaskFrom_maskRest [of False s] by simp
      finally show ?thesis .
    qed
  qed
qed

lemma removeAll_MaskRE: "removeAll host MaskRE = unmask host"
  by (simp add: removeAll_def matchAll_def unmask_def cut_MaskRE)

text \<open>The rendering of a number is its decimal numeral, and the two templates of \<^verbatim>\<open>tally\<close>
  produce the heading of a week and the row of a host.\<close>

lemma showNat_numeral:
  "showNat n \<noteq> [] \<and> (\<forall>c\<in>set (showNat n). 0x30 \<le> c \<and> c \<le> 0x39) \<and> numeralValue (showNat n) = n"
proof (induction n rule: showNat.induct)
  case (1 n)
  show ?case
  proof (cases "n < 10")
    case True
    then show ?thesis by (subst (1 2 3) showNat.simps) (simp add: numeralValue_def)
  next
    case False
    with 1 have ih: "showNat (n div 10) \<noteq> []"
      "\<forall>c\<in>set (showNat (n div 10)). 0x30 \<le> c \<and> c \<le> 0x39"
      "numeralValue (showNat (n div 10)) = n div 10" by simp_all
    have e: "showNat n = showNat (n div 10) @ [0x30 + n mod 10]"
      using False by (subst showNat.simps) simp
    have "n mod 10 < 10" by simp
    with ih show ?thesis unfolding e by (auto simp: numeralValue_def)
  qed
qed

lemma weekLine_heading: "weekLine name n = weekHeading name n"
  by (simp add: weekLine_def weekHeading_def js_def)

lemma hostLine_row: "hostLine host n = hostRow host n"
  by (simp add: hostLine_def hostRow_def removeAll_MaskRE js_def)

text \<open>The two cases of \<^verbatim>\<open>tally\<close>: with fewer than two occupied weeks the type error, with
  two or more the reports of the two most recent ones.\<close>

lemma tally_few_weeks:
  assumes "card (occupiedWeeks now list) < 2"
  shows "tally now list = Inl TypeError"
proof -
  define weekly where "weekly = tallyWeekly now list"
  define weeks where "weeks = sortJS descending (map fst weekly)"
  have len: "length weeks = card (occupiedWeeks now list)"
    by (simp add: weeks_def weekly_def length_sortJS card_occupiedWeeks)
  have t: "tally now list =
      (case tallyOf weekly [0x4ECA] (nth_opt weeks 0) of
           Inl err \<Rightarrow> Inl err
         | Inr thisWeek \<Rightarrow>
             (case tallyOf weekly [0x5148] (nth_opt weeks 1) of
                Inl err \<Rightarrow> Inl err
              | Inr lastWeek \<Rightarrow> Inr (thisWeek @ lastWeek)))"
    unfolding tally_def weekly_def weeks_def Let_def by (rule refl)
  from assms len have "nth_opt weeks 1 = None" by (simp add: nth_opt_def)
  then have 2: "tallyOf weekly [0x5148] (nth_opt weeks 1) = Inl TypeError"
    by (simp add: tallyOf_absent)
  show ?thesis
  proof (cases "tallyOf weekly [0x4ECA] (nth_opt weeks 0)")
    case (Inl err)
    with tallyOf_error have "err = TypeError" by blast
    with Inl t show ?thesis by simp
  next
    case (Inr thisWeek)
    with t 2 show ?thesis by simp
  qed
qed

lemma tally_two_weeks:
  assumes wf: "\<forall>item\<in>set list. timestampOf item \<noteq> None"
    and many: "2 \<le> card (occupiedWeeks now list)"
  shows "\<exists>w1 w2 r1 r2.
            Some w1 \<in> occupiedWeeks now list \<and> Some w2 \<in> occupiedWeeks now list \<and> w2 < w1 \<and>
            (\<forall>w. Some w \<in> occupiedWeeks now list \<longrightarrow> w = w1 \<or> w \<le> w2) \<and>
            isRanking now list w1 r1 \<and> isRanking now list w2 r2 \<and>
            tally now list =
              Inr (weekReport [0x4ECA] now list w1 r1 @ weekReport [0x5148] now list w2 r2)"
proof -
  define weekly where "weekly = tallyWeekly now list"
  define weeks where "weeks = sortJS descending (map fst weekly)"
  have tl: "tally now list =
      (case tallyOf weekly [0x4ECA] (nth_opt weeks 0) of
           Inl err \<Rightarrow> Inl err
         | Inr thisWeek \<Rightarrow>
             (case tallyOf weekly [0x5148] (nth_opt weeks 1) of
                Inl err \<Rightarrow> Inl err
              | Inr lastWeek \<Rightarrow> Inr (thisWeek @ lastWeek)))"
    unfolding tally_def weekly_def weeks_def Let_def by (rule refl)
  from weeks_sorted [OF wf, of now] have
    ws: "set weeks = occupiedWeeks now list" and
    some: "\<forall>w\<in>set weeks. w \<noteq> None" and
    sorted: "sorted_wrt (\<lambda>a b. the b < the a) weeks"
    by (simp_all add: weeks_def weekly_def)
  have "length weeks = card (occupiedWeeks now list)"
    by (simp add: weeks_def weekly_def length_sortJS card_occupiedWeeks)
  with many have len: "1 < length weeks" by simp
  then have len0: "0 < length weeks" by linarith
  from len len0 have n0: "nth_opt weeks 0 = Some (weeks ! 0)" and n1: "nth_opt weeks 1 = Some (weeks ! 1)"
    by (simp_all add: nth_opt_def)
  from len len0 have m0: "weeks ! 0 \<in> set weeks" and m1: "weeks ! 1 \<in> set weeks"
    using nth_mem by blast+
  with some obtain w1 w2 where w1: "weeks ! 0 = Some w1" and w2: "weeks ! 1 = Some w2"
    by (metis not_Some_eq)
  from sorted have "\<And>i j. i < j \<Longrightarrow> j < length weeks \<Longrightarrow> the (weeks ! j) < the (weeks ! i)"
    by (simp add: sorted_wrt_iff_nth_less)
  from this [of 0 1] len have "the (weeks ! 1) < the (weeks ! 0)" by simp
  with w1 w2 have lt: "w2 < w1" by simp
  have rest: "w = w1 \<or> w \<le> w2" if "Some w \<in> occupiedWeeks now list" for w
  proof -
    from that ws obtain k where k: "k < length weeks" "weeks ! k = Some w"
      by (metis in_set_conv_nth)
    consider "k = 0" | "k = 1" | "1 < k" by linarith
    then show ?thesis
    proof cases
      case 1
      with k w1 show ?thesis by simp
    next
      case 2
      with k w2 show ?thesis by simp
    next
      case 3
      from sorted have "\<And>i j. i < j \<Longrightarrow> j < length weeks \<Longrightarrow> the (weeks ! j) < the (weeks ! i)"
        by (simp add: sorted_wrt_iff_nth_less)
      from this [OF 3 k(1)] have "the (weeks ! k) < the (weeks ! 1)" .
      with k w2 show ?thesis by simp
    qed
  qed
  from m0 m1 w1 w2 ws have o1: "Some w1 \<in> occupiedWeeks now list" and o2: "Some w2 \<in> occupiedWeeks now list"
    by simp_all
  from tallyWeekly_props [of now list] have keys: "fst ` set weekly = occupiedWeeks now list"
    by (simp add: weekly_def)
  define r1 where "r1 = map (\<lambda>(h, ms). (the h, length ms))
      (sortJS descendingByFrequency (hostsOfWeek (tallyWeekly now list) (Some w1)))"
  define r2 where "r2 = map (\<lambda>(h, ms). (the h, length ms))
      (sortJS descendingByFrequency (hostsOfWeek (tallyWeekly now list) (Some w2)))"
  note k1 = ranking_of_week [of now list w1, folded r1_def]
  note k2 = ranking_of_week [of now list w2, folded r2_def]
  from tallyOf_present [of "Some w1" now list "[0x4ECA]"] o1 keys n0 w1 k1
  have e0: "tallyOf weekly [0x4ECA] (nth_opt weeks 0) = Inr (weekReport [0x4ECA] now list w1 r1)"
    by (simp add: weekly_def weekReport_def weekLine_heading hostLine_row)
  from tallyOf_present [of "Some w2" now list "[0x5148]"] o2 keys n1 w2 k2
  have e1: "tallyOf weekly [0x5148] (nth_opt weeks 1) = Inr (weekReport [0x5148] now list w2 r2)"
    by (simp add: weekly_def weekReport_def weekLine_heading hostLine_row)
  from tl e0 e1 have "tally now list =
      Inr (weekReport [0x4ECA] now list w1 r1 @ weekReport [0x5148] now list w2 r2)" by simp
  with o1 o2 lt rest k1 k2 show ?thesis by blast
qed

text \<open>
  Claim C8. The week of a record is the week number of the specification, computed from
  the weekday and the start of the year of the evaluation moment and from the
  milliseconds that stand before the separator in the id of the record; every match of a
  record lies in the bucket of that week and of its host. When the ids of the cache are
  well formed and at least two weeks are occupied, \<^verbatim>\<open>tally\<close> returns the report of the two
  most recent occupied weeks: for each, the heading with the number of distinct hosts of
  the week and the rows of the first five hosts of a ranking of the week by descending
  number of messages, each row with the name of the host and the number of its messages.
  (With fewer than two occupied weeks there is no report but the type error.) The result
  is a function of the evaluation moment and the cached records alone.
\<close>

theorem tally_report:
  assumes wf: "\<forall>item\<in>set list. timestampOf item \<noteq> None"
  shows "(\<forall>item. weekOf now item = map_option (specWeek now) (timestampOf item)) \<and>
         (\<forall>w h. bucket (tallyWeekly now list) w h =
                  map snd (filter (\<lambda>e. fst e = w \<and> groupOf (snd e) ''host'' = h) (entries now list))) \<and>
         (card (occupiedWeeks now list) < 2 \<longrightarrow> tally now list = Inl TypeError) \<and>
         (2 \<le> card (occupiedWeeks now list) \<longrightarrow>
            (\<exists>w1 w2 r1 r2.
               Some w1 \<in> occupiedWeeks now list \<and> Some w2 \<in> occupiedWeeks now list \<and> w2 < w1 \<and>
               (\<forall>w. Some w \<in> occupiedWeeks now list \<longrightarrow> w = w1 \<or> w \<le> w2) \<and>
               isRanking now list w1 r1 \<and> isRanking now list w2 r2 \<and>
               tally now list =
                 Inr (weekReport [0x4ECA] now list w1 r1 @ weekReport [0x5148] now list w2 r2)))"
proof (intro conjI impI)
  show "\<forall>item. weekOf now item = map_option (specWeek now) (timestampOf item)"
    by (simp add: weekOf_specWeek)
  show "\<forall>w h. bucket (tallyWeekly now list) w h =
                  map snd (filter (\<lambda>e. fst e = w \<and> groupOf (snd e) ''host'' = h) (entries now list))"
    using tallyWeekly_props [of now list] by blast
next
  assume "card (occupiedWeeks now list) < 2"
  then show "tally now list = Inl TypeError" by (rule tally_few_weeks)
next
  assume "2 \<le> card (occupiedWeeks now list)"
  with wf show "\<exists>w1 w2 r1 r2.
               Some w1 \<in> occupiedWeeks now list \<and> Some w2 \<in> occupiedWeeks now list \<and> w2 < w1 \<and>
               (\<forall>w. Some w \<in> occupiedWeeks now list \<longrightarrow> w = w1 \<or> w \<le> w2) \<and>
               isRanking now list w1 r1 \<and> isRanking now list w2 r2 \<and>
               tally now list =
                 Inr (weekReport [0x4ECA] now list w1 r1 @ weekReport [0x5148] now list w2 r2)"
    by (rule tally_two_weeks)
qed
lemma cacheTwoWeeks_timestamps:
  "map timestampOf cacheTwoWeeks =
     [Some 1700000000000, Some 1699900000000, Some 1699800000000, Some 1699300000000,
      Some 1699200000000]"
  by (simp add: cacheTwoWeeks_def timestampOf_def parseInt_def isDigitOf_def digitValue_def
      isWhiteSpace_def js_def Let_def)

lemma cacheTwoWeeks_tally:
  "tally (clock env0) cacheTwoWeeks =
     Inr [weekLine [0x4ECA] 2,
          hostLine (js ''host1.example.jp'') 2,
          hostLine (js ''host2.example.jp'') 1,
          weekLine [0x5148] 1,
          hostLine (js ''host3*.example.jp'') 2]"
  by (simp add: cacheTwoWeeks_def frameText_def wednesday_def selfMark_def tally_defs regex_defs
      env0_def)

lemma cacheTwoWeeks_weeks:
  "map (weekOf (clock env0)) cacheTwoWeeks = [Some 46, Some 46, Some 46, Some 45, Some 45]"
  by (simp add: cacheTwoWeeks_def weekOf_def timestampOf_def parseInt_def isDigitOf_def
      digitValue_def numberOfDays_def isWhiteSpace_def js_def env0_def Let_def)

lemma cacheTwoWeeks_occupied: "occupiedWeeks (clock env0) cacheTwoWeeks = {Some 46, Some 45}"
proof -
  have "map fst (entries (clock env0) cacheTwoWeeks) = [Some 46, Some 46, Some 46, Some 45, Some 45]"
    by (simp add: entries_def cacheTwoWeeks_def frameText_def wednesday_def selfMark_def
        tally_defs regex_defs env0_def)
  then have "set (map fst (entries (clock env0) cacheTwoWeeks)) =
      set [Some 46, Some 46, Some 46, Some 45, Some 45]" by simp
  then show ?thesis by (simp add: occupiedWeeks_def)
qed

lemma tallyEntry_occupied: "occupiedWeeks (clock env0) [tallyEntry] = {Some 46}"
proof -
  have "map fst (entries (clock env0) [tallyEntry]) = [Some 46]"
    by (simp add: entries_def tallyEntry_def tallyBody_def frameText_def wednesday_def selfMark_def
        tally_defs regex_defs env0_def)
  then have "set (map fst (entries (clock env0) [tallyEntry])) = set [Some 46]" by simp
  then show ?thesis by (simp add: occupiedWeeks_def)
qed

text \<open>The two claims of the tally on the cache of five records and on the cache that
  only holds the command of the statistics.\<close>

theorem tally_needs_two_weeks_witness:
  "card (occupiedWeeks (clock env0) [tallyEntry]) < 2 \<and>
   tally (clock env0) [tallyEntry] = Inl TypeError \<and>
   2 \<le> card (occupiedWeeks (clock env0) cacheTwoWeeks) \<and>
   (\<exists>lines. tally (clock env0) cacheTwoWeeks = Inr lines)"
proof -
  have 1: "card (occupiedWeeks (clock env0) [tallyEntry]) < 2"
    by (simp add: tallyEntry_occupied)
  have 2: "2 \<le> card (occupiedWeeks (clock env0) cacheTwoWeeks)"
    by (simp add: cacheTwoWeeks_occupied)
  from tally_needs_two_weeks [of "clock env0" "[tallyEntry]" env0 bot0] 1
  have "tally (clock env0) [tallyEntry] = Inl TypeError" by blast
  moreover from tally_needs_two_weeks [of "clock env0" cacheTwoWeeks env0 bot0] 2
  have "\<exists>lines. tally (clock env0) cacheTwoWeeks = Inr lines" by blast
  ultimately show ?thesis using 1 2 by blast
qed

text \<open>The report of the cache of five records, line by line.\<close>

lemma cacheTwoWeeks_report: "tally (clock env0) cacheTwoWeeks = Inr reportTwoWeeks"
  by (simp add: cacheTwoWeeks_tally reportTwoWeeks_def weekLine_def hostLine_def removeAll_MaskRE
      unmask_def showNat.simps js_def)

theorem tally_report_witness:
  "map timestampOf cacheTwoWeeks =
     [Some 1700000000000, Some 1699900000000, Some 1699800000000, Some 1699300000000,
      Some 1699200000000] \<and>
   card (occupiedWeeks (clock env0) cacheTwoWeeks) = 2 \<and>
   map (\<lambda>item. map_option (specWeek (clock env0)) (timestampOf item)) cacheTwoWeeks =
     [Some 46, Some 46, Some 46, Some 45, Some 45] \<and>
   tally (clock env0) cacheTwoWeeks = Inr reportTwoWeeks \<and>
   (\<exists>r1 r2.
      isRanking (clock env0) cacheTwoWeeks 46 r1 \<and> isRanking (clock env0) cacheTwoWeeks 45 r2 \<and>
      reportTwoWeeks =
        weekReport [0x4ECA] (clock env0) cacheTwoWeeks 46 r1 @
        weekReport [0x5148] (clock env0) cacheTwoWeeks 45 r2)"
proof -
  have "\<forall>t\<in>set (map timestampOf cacheTwoWeeks). t \<noteq> None"
    unfolding cacheTwoWeeks_timestamps by simp
  then have wf: "\<forall>item\<in>set cacheTwoWeeks. timestampOf item \<noteq> None" by simp
  have c: "card (occupiedWeeks (clock env0) cacheTwoWeeks) = 2"
    by (simp add: cacheTwoWeeks_occupied)
  note r = tally_report [OF wf, of "clock env0"]
  from r have "\<forall>item. weekOf (clock env0) item = map_option (specWeek (clock env0)) (timestampOf item)"
    by blast
  then have "map (weekOf (clock env0)) cacheTwoWeeks =
     map (\<lambda>item. map_option (specWeek (clock env0)) (timestampOf item)) cacheTwoWeeks" by simp
  with cacheTwoWeeks_weeks have a: "map (\<lambda>item. map_option (specWeek (clock env0)) (timestampOf item)) cacheTwoWeeks =
     [Some 46, Some 46, Some 46, Some 45, Some 45]" by simp
  from r c obtain w1 w2 r1 r2 where
    o: "Some w1 \<in> occupiedWeeks (clock env0) cacheTwoWeeks"
       "Some w2 \<in> occupiedWeeks (clock env0) cacheTwoWeeks" "w2 < w1" and
    k: "isRanking (clock env0) cacheTwoWeeks w1 r1" "isRanking (clock env0) cacheTwoWeeks w2 r2" and
    t: "tally (clock env0) cacheTwoWeeks =
          Inr (weekReport [0x4ECA] (clock env0) cacheTwoWeeks w1 r1 @
               weekReport [0x5148] (clock env0) cacheTwoWeeks w2 r2)"
    by auto
  from o have "w1 = 46" "w2 = 45" by (auto simp: cacheTwoWeeks_occupied)
  with k t cacheTwoWeeks_report have "\<exists>r1 r2.
      isRanking (clock env0) cacheTwoWeeks 46 r1 \<and> isRanking (clock env0) cacheTwoWeeks 45 r2 \<and>
      reportTwoWeeks =
        weekReport [0x4ECA] (clock env0) cacheTwoWeeks 46 r1 @
        weekReport [0x5148] (clock env0) cacheTwoWeeks 45 r2" by auto
  with a c cacheTwoWeeks_timestamps cacheTwoWeeks_report show ?thesis by blast
qed
subsection \<open>Startup\<close>



lemma queryLogAsync_cache53:
  "map log_id (recent_list
     (queryLogAsync [\<lparr>log_id = js ''1700000000001-0'', log_message = js ''one''\<rparr>] cache53)) =
   [js ''1700000000005-0'', js ''1700000000003-0'', js ''1700000000001-0'']"
  by (simp add: queryLogAsync_def cache53_def updateRecent_def splice_def sortJS_def
      byIdDescending_def js_def Let_def)




lemma updateRecent_head:
  assumes "log_message entry \<notin> recent_set r"
    and "\<forall>v\<in>set (recent_list r). log_id v < log_id entry"
  shows "recent_list (updateRecent entry r) = entry # recent_list r"
proof (cases "recent_list r")
  case Nil
  with assms(1) show ?thesis by (simp add: updateRecent_empty)
next
  case (Cons v vs)
  with assms(2) have "log_id v < log_id entry" by simp
  with Cons assms(1) updateRecent_found [of entry r] show ?thesis by simp
qed


text \<open>At the start the cache is empty and the reply holds the entries of the log, which
  are merged from the oldest to the newest: every merge is an insertion before the head,
  and the sequence is sorted after each of them.\<close>

lemma backfill_ascending:
  assumes "descending_ids (recent_list r)"
    and "sorted_wrt (\<lambda>a b. log_id a < log_id b) es"
    and "\<forall>v\<in>set (recent_list r). \<forall>e\<in>set es. log_id v < log_id e"
  shows "descending_ids (recent_list (foldl (\<lambda>r entry. updateRecent entry r) r es))"
  using assms
proof (induction es arbitrary: r)
  case Nil
  then show ?case by simp
next
  case (Cons e es)
  let ?r = "updateRecent e r"
  have "descending_ids (recent_list ?r) \<and>
      (\<forall>v\<in>set (recent_list ?r). \<forall>x\<in>set es. log_id v < log_id x)"
  proof (cases "log_message e \<in> recent_set r")
    case True
    then have "?r = r" by (simp add: updateRecent_def)
    with Cons.prems show ?thesis by simp
  next
    case False
    from Cons.prems(3) have "\<forall>v\<in>set (recent_list r). log_id v < log_id e" by simp
    with False have h: "recent_list ?r = e # recent_list r" by (rule updateRecent_head)
    from Cons.prems have "descending_ids (e # recent_list r)"
      by (simp add: descending_ids_def)
    moreover from Cons.prems(2,3) have
      "\<forall>v\<in>set (e # recent_list r). \<forall>x\<in>set es. log_id v < log_id x" by simp
    ultimately show ?thesis by (simp only: h)
  qed
  moreover from Cons.prems(2) have "sorted_wrt (\<lambda>a b. log_id a < log_id b) es" by simp
  ultimately have "descending_ids (recent_list (foldl (\<lambda>r entry. updateRecent entry r) ?r es))"
    using Cons.IH [of ?r] by blast
  then show ?case by simp
qed






subsection \<open>The router and the loop when the statistics fail\<close>

text \<open>
  Claim C2. For every message the router must await the handler of each matching entry
  and return a boolean, the match of the last entry. For the command of the statistics on
  a cache of fewer than two weeks it returns nothing: on a fresh log, where the record of
  the command is the only one in the cache, the entry of the statistics is the only one
  that matches, the last entry does not match, so that the boolean would be false, and
  the call of the router ends with the type error that its handler throws.
\<close>

theorem handleCanonicalCommandsAsync_tally_throws:
  "map pattern_name (matching tallyBody (patterns env0)) = [''handleTallyCommandAsync''] \<and>
   matchRE tallyBody (pattern_e (last (patterns env0))) = None \<and>
   handleCanonicalCommandsAsync env0 (Some tallyBody) botTally =
     (Inl TypeError,
      botTally\<lparr>calls := [Router (Some tallyBody), Handler ''handleTallyCommandAsync'']\<rparr>)"
proof (intro conjI)
  show "map pattern_name (matching tallyBody (patterns env0)) = [''handleTallyCommandAsync'']"
    by (simp add: matching_def patterns_def tallyBody_def regex_defs pattern_defs env0_def ucd0_def)
  show "matchRE tallyBody (pattern_e (last (patterns env0))) = None"
    by (simp add: patterns_def tallyBody_def regex_defs pattern_defs env0_def ucd0_def)
  show "handleCanonicalCommandsAsync env0 (Some tallyBody) botTally =
     (Inl TypeError,
      botTally\<lparr>calls := [Router (Some tallyBody), Handler ''handleTallyCommandAsync'']\<rparr>)"
    by (simp add: handleCanonicalCommandsAsync_def patterns_def botTally_def
      frameText_def wednesday_def selfMark_def tallyBody_def
      tallyEntry_def handleTallyCommandAsync_def tallyAsync_def tally_defs regex_defs pattern_defs
      bot0_def env0_def ucd0_def)
qed

text \<open>The two records of \<open>chunkTally\<close>, each as the first record that the bot \<open>botHello\<close>
  receives: the command of the statistics ends the round with the type error; the message
  \<^verbatim>\<open>hello\<close> is routed, the router returns false, and the keyword engine sends the reply
  that is registered for the keyword.\<close>

lemma tallyBody_skips:
  "acceptMatched env0
     (frameMatch 0 tallyBody wednesday (js ''07:13:20'') (js ''host1.example.jp'') False) botHello =
   (Some TypeError,
    botHello\<lparr>recent := \<lparr>recent_list = [tallyEntry, registerEntry],
                      recent_map = [log_id registerEntry \<mapsto> registerEntry,
                                    log_id tallyEntry \<mapsto> tallyEntry],
                      recent_set = {log_message tallyEntry, log_message registerEntry}\<rparr>,
         appended := 1,
         events := [XAdd (log_message tallyEntry), Broadcast tallyEntry],
         calls := [Router (Some tallyBody), Handler ''handleTallyCommandAsync'']\<rparr>)"
  by (simp add: accept_defs frameMatch_def frameText_def wednesday_def selfMark_def tallyBody_def
      tallyEntry_def registerEntry_def registerBody_def botHello_def
      handleTallyCommandAsync_def tallyAsync_def tally_defs regex_defs pattern_defs
      env0_def ucd0_def)

lemma hello_answered:
  "acceptMatched env0
     (frameMatch 63 (js ''hello'') wednesday (js ''07:13:21'') (js ''host2.example.jp'') False) botHello =
   (None,
    botHello\<lparr>recent := \<lparr>recent_list = [helloEntry, registerEntry],
                      recent_map = [log_id registerEntry \<mapsto> registerEntry,
                                    log_id helloEntry \<mapsto> helloEntry],
                      recent_set = {log_message helloEntry, log_message registerEntry}\<rparr>,
         appended := 1,
         events := [XAdd (log_message helloEntry), Broadcast helloEntry, Send (js ''[Bot] world'')],
         calls := [Router (Some (js ''hello'')),
                   KeywordEngine (frameMatch 63 (js ''hello'') wednesday (js ''07:13:21'')
                                    (js ''host2.example.jp'') False)]\<rparr>)"
  by (simp add: accept_defs frameMatch_def frameText_def wednesday_def selfMark_def
      helloEntry_def registerEntry_def registerBody_def botHello_def testUserKeywordsAsync_def
      regex_defs pattern_defs groupOf_def calculateAsync_def
      env0_def ucd0_def showNat.simps Let_def)

text \<open>
  Claim C7. For every record that is extracted from a chunk and is not self-authored the
  router must be invoked, and the keyword engine when the router returned false. Both
  records of \<open>chunkTally\<close> are from other users. On the bot \<open>botHello\<close>, whose cache
  lies in one week, \<^verbatim>\<open>acceptKoukoku\<close> ends with the type error of the statistics in the
  round of the first record: the second record is never appended, the router is not
  invoked for it, nor is the keyword engine, and the reply that the keyword engine sends
  for this record when the round is run is not sent.
\<close>

theorem acceptKoukoku_record_skipped:
  "map (\<lambda>m. (groupOf m ''msg'', truthy (groupOf m ''self''))) (frames env0 chunkTally) =
     [(Some tallyBody, False), (Some (js ''hello''), False)] \<and>
   acceptKoukoku env0 chunkTally botHello =
     (Some TypeError,
      botHello\<lparr>recent := \<lparr>recent_list = [tallyEntry, registerEntry],
                        recent_map = [log_id registerEntry \<mapsto> registerEntry,
                                      log_id tallyEntry \<mapsto> tallyEntry],
                        recent_set = {log_message tallyEntry, log_message registerEntry}\<rparr>,
           appended := 1,
           events := [XAdd (log_message tallyEntry), Broadcast tallyEntry],
           calls := [Router (Some tallyBody), Handler ''handleTallyCommandAsync'']\<rparr>) \<and>
   events (snd (acceptMatched env0 (frames env0 chunkTally ! 1) botHello)) =
     [XAdd (log_message helloEntry), Broadcast helloEntry, Send (js ''[Bot] world'')] \<and>
   calls (snd (acceptMatched env0 (frames env0 chunkTally ! 1) botHello)) =
     [Router (Some (js ''hello'')), KeywordEngine (frames env0 chunkTally ! 1)]"
  by (simp add: acceptKoukoku_def chunkTally_frames tallyBody_skips hello_answered)
    (simp add: groupOf_def frameMatch_def truthy_def)
end
